theory Spec2Isabelle
  imports Main "HOL-Library.Multiset"
begin

section \<open>Texts and the two format constraints\<close>

text \<open>
  The program is a Python class \<open>ClientDatabase\<close> that keeps clients and their phone
  numbers in two PostgreSQL tables through one psycopg2 connection. A Python \<open>str\<close> is a
  sequence of Unicode code points, and so is a PostgreSQL \<open>varchar\<close>; both are modelled as
  lists of code points, and the width of a column counts code points.
\<close>

type_synonym pystr = "nat list"

definition ascii :: "string \<Rightarrow> pystr" where
  "ascii s = map of_char s"

text \<open>
  \<open>str.lower()\<close>, on the Basic Latin capitals and on the Cyrillic capitals
  U+0400..U+042F; other code points are left as they are. The only other code point whose
  Python lower-casing produces a letter of a search key is U+0130, which becomes two
  code points and so can never complete a key.
\<close>

definition lower_cp :: "nat \<Rightarrow> nat" where
  "lower_cp c =
     (if 65 \<le> c \<and> c \<le> 90 then c + 32
      else if 1040 \<le> c \<and> c \<le> 1071 then c + 32
      else if 1024 \<le> c \<and> c \<le> 1039 then c + 80
      else c)"

definition lower :: "pystr \<Rightarrow> pystr" where
  "lower s = map lower_cp s"

text \<open>
  The check constraints of \<open>create_db_schema\<close> are PostgreSQL regular expressions, both
  anchored at the two ends. The fragment they use: bracket expressions made of single
  characters and the class escapes \<open>\d\<close>, \<open>\w\<close>, \<open>\s\<close>, concatenation, \<open>*\<close>, \<open>+\<close>,
  \<open>{0,1}\<close> and \<open>{1,4}\<close>. What the three classes hold beyond ASCII depends on the
  \<open>LC_CTYPE\<close> of the database, which the program does not set; they are taken as a
  database with \<open>LC_CTYPE\<close> \<open>C\<close> has them, where they hold ASCII characters only. The
  theorems below on all values use \<open>email_ok\<close> and \<open>phone_ok\<close> as they are, whatever
  they accept.
\<close>

datatype item = Lit nat | Digit | Word | Space

fun item_has :: "item \<Rightarrow> nat \<Rightarrow> bool" where
  "item_has (Lit a) c = (c = a)"
| "item_has Digit c = (48 \<le> c \<and> c \<le> 57)"
| "item_has Word c =
     ((48 \<le> c \<and> c \<le> 57) \<or> (65 \<le> c \<and> c \<le> 90) \<or> (97 \<le> c \<and> c \<le> 122) \<or> c = 95)"
| "item_has Space c = ((9 \<le> c \<and> c \<le> 13) \<or> c = 32)"

datatype regex =
    Fail
  | Eps
  | Cls "item list"
  | Cat regex regex
  | Alt regex regex
  | Many regex

text \<open>The words a regular expression denotes.\<close>

inductive denotes :: "regex \<Rightarrow> pystr \<Rightarrow> bool" where
  d_eps: "denotes Eps []"
| d_cls: "\<exists>i \<in> set is. item_has i c \<Longrightarrow> denotes (Cls is) [c]"
| d_cat: "denotes r u \<Longrightarrow> denotes q v \<Longrightarrow> denotes (Cat r q) (u @ v)"
| d_altl: "denotes r u \<Longrightarrow> denotes (Alt r q) u"
| d_altr: "denotes q u \<Longrightarrow> denotes (Alt r q) u"
| d_many0: "denotes (Many r) []"
| d_many: "denotes r u \<Longrightarrow> denotes (Many r) v \<Longrightarrow> denotes (Many r) (u @ v)"

text \<open>The matcher: the expression is differentiated by each character in turn.\<close>

fun nullable :: "regex \<Rightarrow> bool" where
  "nullable Fail = False"
| "nullable Eps = True"
| "nullable (Cls is) = False"
| "nullable (Cat r q) = (nullable r \<and> nullable q)"
| "nullable (Alt r q) = (nullable r \<or> nullable q)"
| "nullable (Many r) = True"

fun after :: "nat \<Rightarrow> regex \<Rightarrow> regex" where
  "after c Fail = Fail"
| "after c Eps = Fail"
| "after c (Cls is) = (if list_ex (\<lambda>i. item_has i c) is then Eps else Fail)"
| "after c (Cat r q) =
     (if nullable r then Alt (Cat (after c r) q) (after c q) else Cat (after c r) q)"
| "after c (Alt r q) = Alt (after c r) (after c q)"
| "after c (Many r) = Cat (after c r) (Many r)"

fun matches :: "regex \<Rightarrow> pystr \<Rightarrow> bool" where
  "matches r [] = nullable r"
| "matches r (c # cs) = matches (after c r) cs"

definition opt :: "regex \<Rightarrow> regex" where
  "opt r = Alt r Eps"

definition some :: "regex \<Rightarrow> regex" where
  "some r = Cat r (Many r)"

definition chr :: "char \<Rightarrow> item" where
  "chr c = Lit (of_char c)"

text \<open>\<^verbatim>\<open>^[\w\-\.]+\@[\w\-\.]+\.[\w]+$\<close>\<close>

definition email_regexp :: regex where
  "email_regexp =
     Cat (some (Cls [Word, chr CHR ''-'', chr CHR ''.'']))
    (Cat (Cls [chr CHR ''@''])
    (Cat (some (Cls [Word, chr CHR ''-'', chr CHR ''.'']))
    (Cat (Cls [chr CHR ''.''])
         (some (Cls [Word])))))"

text \<open>\<^verbatim>\<open>^[+]{0,1}\d{0,1}[(]{0,1}\d{1,4}[)]{0,1}[-\s\./\d]*$\<close>\<close>

definition one_to_four :: "regex \<Rightarrow> regex" where
  "one_to_four r = Cat r (opt (Cat r (opt (Cat r (opt r)))))"

definition phone_regexp :: regex where
  "phone_regexp =
     Cat (opt (Cls [chr CHR ''+'']))
    (Cat (opt (Cls [Digit]))
    (Cat (opt (Cls [chr CHR ''(''  ]))
    (Cat (one_to_four (Cls [Digit]))
    (Cat (opt (Cls [chr CHR '')''  ]))
         (Many (Cls [chr CHR ''-'', Space, chr CHR ''.'', chr CHR ''/'', Digit]))))))"

text \<open>
  A check constraint lets a row through when its expression is true or NULL: a client
  without email passes.
\<close>

definition email_ok :: "pystr option \<Rightarrow> bool" where
  "email_ok em = (case em of None \<Rightarrow> True | Some e \<Rightarrow> matches email_regexp e)"

definition phone_ok :: "pystr \<Rightarrow> bool" where
  "phone_ok p = matches phone_regexp p"

section \<open>The two tables and the connection\<close>

text \<open>
  Table \<open>client\<close> (\<open>client_id SERIAL PRIMARY KEY\<close>, \<open>first_name varchar(100)\<close>,
  \<open>last_name varchar(100)\<close>, \<open>email varchar(100)\<close>, nullable) and table \<open>client_phone\<close>
  (\<open>client_phone_id SERIAL PRIMARY KEY\<close>,
  \<open>client_id integer references client(client_id)\<close>, \<open>phone varchar(50)\<close>). A table is
  the list of its rows in insertion order. The operations receive identifiers as
  integers and names and phones as texts, so only \<open>email\<close> is ever NULL.
\<close>

record client =
  client_id :: int
  first_name :: pystr
  last_name :: pystr
  email :: "pystr option"

record client_phone =
  client_phone_id :: int
  cp_client_id :: int
  phone :: pystr

record tables =
  tbl_client :: "client list"
  tbl_client_phone :: "client_phone list"

text \<open>
  The exceptions of \<open>psycopg2.errors\<close> that a statement of this program can raise on
  these tables.
\<close>

datatype exn =
    CheckViolation
  | UniqueViolation
  | ForeignKeyViolation
  | InFailedSqlTransaction
  | StringDataRightTruncation
  | NumericValueOutOfRange
  | SequenceGeneratorLimitExceeded

text \<open>
  The state of the connection's transaction: none open, one open, or one open that a
  failed statement has aborted (every further statement is refused until it is ended).
\<close>

datatype txn_status = Idle | InTrans | InError

text \<open>What reaches the server when a transaction ends; kept as a trace.\<close>

datatype event = Committed tables | RolledBack

text \<open>
  What the program prints: the three fixed messages (in Russian in the source:
  "incorrect email given, the client is not added", "incorrect phone number given, the
  phone(s) are not added", "search is possible by one of the fields ...") and the rows
  of \<open>print_all_clients\<close>.
\<close>

type_synonym found_row = "int \<times> pystr \<times> pystr \<times> pystr option"

type_synonym listed_row = "int \<times> pystr \<times> pystr \<times> pystr option \<times> pystr option"

datatype line = Incorrect_email | Incorrect_phone | Unknown_field | Listed listed_row

text \<open>
  The connection with the database behind it: the committed tables, the tables as the
  open transaction sees them, the two sequences behind the \<open>SERIAL\<close> columns (the last
  value handed out; a sequence is never rolled back), the trace and the printed lines.
\<close>

record conn =
  committed :: tables
  work :: tables
  txn :: txn_status
  client_id_seq :: int
  client_phone_id_seq :: int
  history :: "event list"
  stdout :: "line list"

type_synonym 'a outcome = "(exn + 'a) \<times> conn"

definition print :: "line \<Rightarrow> conn \<Rightarrow> conn" where
  "print l s = s\<lparr>stdout := stdout s @ [l]\<rparr>"

text \<open>
  \<open>conn.commit()\<close> and \<open>conn.rollback()\<close> send nothing when no transaction is open. The
  server answers a \<open>COMMIT\<close> in an aborted transaction by rolling it back.
\<close>

definition commit :: "conn \<Rightarrow> conn" where
  "commit s =
     (case txn s of
        Idle \<Rightarrow> s
      | InTrans \<Rightarrow> s\<lparr>committed := work s, txn := Idle, history := history s @ [Committed (work s)]\<rparr>
      | InError \<Rightarrow> s\<lparr>work := committed s, txn := Idle, history := history s @ [RolledBack]\<rparr>)"

definition rollback :: "conn \<Rightarrow> conn" where
  "rollback s =
     (case txn s of
        Idle \<Rightarrow> s
      | _ \<Rightarrow> s\<lparr>work := committed s, txn := Idle, history := history s @ [RolledBack]\<rparr>)"

text \<open>
  \<open>cur.execute\<close>: the driver opens a transaction before the first statement; a statement
  in an aborted transaction raises \<open>InFailedSqlTransaction\<close>; a statement that fails
  leaves no change in the tables and aborts the transaction.
\<close>

definition execute :: "(conn \<Rightarrow> 'a outcome) \<Rightarrow> conn \<Rightarrow> 'a outcome" where
  "execute stmt s =
     (if txn s = InError then (Inl InFailedSqlTransaction, s)
      else (case stmt (s\<lparr>txn := InTrans\<rparr>) of
              (Inl e, s1) \<Rightarrow> (Inl e, s1\<lparr>txn := InError\<rparr>)
            | (Inr v, s1) \<Rightarrow> (Inr v, s1)))"

section \<open>The statements\<close>

text \<open>
  A value assigned to a \<open>varchar(n)\<close> column: one of more than \<open>n\<close> characters is
  refused with \<open>StringDataRightTruncation\<close>, unless all that exceeds are spaces, which
  are cut off. The value is a constant of the statement and is converted before the
  statement runs: before a sequence is touched, and also when the statement finds no
  row to write.
\<close>

definition varchar :: "nat \<Rightarrow> pystr \<Rightarrow> exn + pystr" where
  "varchar n v =
     (if length v \<le> n then Inr v
      else if list_all (\<lambda>c. c = 32) (drop n v) then Inr (take n v)
      else Inl StringDataRightTruncation)"

definition varchar_null :: "nat \<Rightarrow> pystr option \<Rightarrow> exn + pystr option" where
  "varchar_null n v =
     (case v of
        None \<Rightarrow> Inr None
      | Some x \<Rightarrow> (case varchar n x of Inl e \<Rightarrow> Inl e | Inr y \<Rightarrow> Inr (Some y)))"

text \<open>
  The columns of type \<open>integer\<close>, the \<open>SERIAL\<close> keys among them, hold 32-bit values: a
  number outside is refused with \<open>NumericValueOutOfRange\<close>, and a sequence that has
  handed out 2147483647 raises \<open>SequenceGeneratorLimitExceeded\<close> at the next call.
\<close>

definition int4 :: "int \<Rightarrow> bool" where
  "int4 i \<longleftrightarrow> - 2147483648 \<le> i \<and> i \<le> 2147483647"

definition nextval :: "int \<Rightarrow> exn + int" where
  "nextval v = (if v < 2147483647 then Inr (v + 1) else Inl SequenceGeneratorLimitExceeded)"

text \<open>
  \<open>INSERT INTO client (first_name, last_name, email) VALUES (...) RETURNING client_id\<close>.
  The default of \<open>client_id\<close> takes the next value of the sequence before the row is
  checked, so a row rejected by the check constraint uses a value up.
\<close>

definition sql_insert_client :: "pystr \<Rightarrow> pystr \<Rightarrow> pystr option \<Rightarrow> conn \<Rightarrow> int outcome" where
  "sql_insert_client fn ln em s =
     (case varchar 100 fn of Inl e \<Rightarrow> (Inl e, s) | Inr f \<Rightarrow>
      case varchar 100 ln of Inl e \<Rightarrow> (Inl e, s) | Inr l \<Rightarrow>
      case varchar_null 100 em of Inl e \<Rightarrow> (Inl e, s) | Inr m \<Rightarrow>
      case nextval (client_id_seq s) of Inl e \<Rightarrow> (Inl e, s) | Inr new_id \<Rightarrow>
        (let s1 = s\<lparr>client_id_seq := new_id\<rparr>
         in if \<not> email_ok m then (Inl CheckViolation, s1)
            else if new_id \<in> set (map client_id (tbl_client (work s)))
              then (Inl UniqueViolation, s1)
            else (Inr new_id,
                  s1\<lparr>work := (work s)\<lparr>tbl_client := tbl_client (work s) @
                     [\<lparr>client_id = new_id, first_name = f, last_name = l, email = m\<rparr>]\<rparr>\<rparr>)))"

text \<open>\<open>INSERT INTO client_phone (client_id, phone) VALUES (...)\<close>\<close>

definition sql_insert_client_phone :: "int \<Rightarrow> pystr \<Rightarrow> conn \<Rightarrow> unit outcome" where
  "sql_insert_client_phone cid ph s =
     (if \<not> int4 cid then (Inl NumericValueOutOfRange, s)
      else
      case varchar 50 ph of Inl e \<Rightarrow> (Inl e, s) | Inr p \<Rightarrow>
      case nextval (client_phone_id_seq s) of Inl e \<Rightarrow> (Inl e, s) | Inr new_id \<Rightarrow>
        (let s1 = s\<lparr>client_phone_id_seq := new_id\<rparr>
         in if \<not> phone_ok p then (Inl CheckViolation, s1)
            else if new_id \<in> set (map client_phone_id (tbl_client_phone (work s)))
              then (Inl UniqueViolation, s1)
            else if cid \<notin> set (map client_id (tbl_client (work s)))
              then (Inl ForeignKeyViolation, s1)
            else (Inr (),
                  s1\<lparr>work := (work s)\<lparr>tbl_client_phone := tbl_client_phone (work s) @
                     [\<lparr>client_phone_id = new_id, cp_client_id = cid, phone = p\<rparr>]\<rparr>\<rparr>)))"

text \<open>
  \<open>UPDATE client SET first_name = .., last_name = .., email = .. WHERE client_id = ..\<close>.
  The check constraint is applied to the rows the statement writes, so it cannot fail
  when no row has the identifier; the widths of the new values are checked all the same.
\<close>

definition sql_update_client :: "int \<Rightarrow> pystr \<Rightarrow> pystr \<Rightarrow> pystr option \<Rightarrow> conn \<Rightarrow> unit outcome" where
  "sql_update_client cid fn ln em s =
     (case varchar 100 fn of Inl e \<Rightarrow> (Inl e, s) | Inr f \<Rightarrow>
      case varchar 100 ln of Inl e \<Rightarrow> (Inl e, s) | Inr l \<Rightarrow>
      case varchar_null 100 em of Inl e \<Rightarrow> (Inl e, s) | Inr m \<Rightarrow>
        (if list_ex (\<lambda>c. client_id c = cid) (tbl_client (work s)) \<and> \<not> email_ok m
         then (Inl CheckViolation, s)
         else (Inr (),
               s\<lparr>work := (work s)\<lparr>tbl_client :=
                  map (\<lambda>c. if client_id c = cid
                            then c\<lparr>first_name := f, last_name := l, email := m\<rparr> else c)
                      (tbl_client (work s))\<rparr>\<rparr>)))"

text \<open>\<open>DELETE FROM client_phone WHERE client_phone_id = ..\<close>\<close>

definition sql_delete_phone :: "int \<Rightarrow> conn \<Rightarrow> unit outcome" where
  "sql_delete_phone pid s =
     (Inr (), s\<lparr>work := (work s)\<lparr>tbl_client_phone :=
        filter (\<lambda>p. client_phone_id p \<noteq> pid) (tbl_client_phone (work s))\<rparr>\<rparr>)"

text \<open>\<open>DELETE FROM client_phone WHERE client_id = ..\<close>\<close>

definition sql_delete_phones_of :: "int \<Rightarrow> conn \<Rightarrow> unit outcome" where
  "sql_delete_phones_of cid s =
     (Inr (), s\<lparr>work := (work s)\<lparr>tbl_client_phone :=
        filter (\<lambda>p. cp_client_id p \<noteq> cid) (tbl_client_phone (work s))\<rparr>\<rparr>)"

text \<open>
  \<open>DELETE FROM client WHERE client_id = ..\<close>. The foreign key of \<open>client_phone\<close> has no
  \<open>ON DELETE\<close> action: deleting a client that a phone still references is refused.
\<close>

definition sql_delete_client :: "int \<Rightarrow> conn \<Rightarrow> unit outcome" where
  "sql_delete_client cid s =
     (if list_ex (\<lambda>c. client_id c = cid) (tbl_client (work s)) \<and>
         list_ex (\<lambda>p. cp_client_id p = cid) (tbl_client_phone (work s))
      then (Inl ForeignKeyViolation, s)
      else (Inr (), s\<lparr>work := (work s)\<lparr>tbl_client :=
              filter (\<lambda>c. client_id c \<noteq> cid) (tbl_client (work s))\<rparr>\<rparr>))"

text \<open>
  \<open>client c LEFT JOIN client_phone cp ON c.client_id = cp.client_id\<close>: every client with
  each of its phones, and a client without phones once, with the phone's columns NULL.
  SQL leaves the order of the rows of a query open. For the search the rows are kept in
  the order of the tables and the property proved of them is one of the set of rows; for
  the listing the order is the server's choice, below.
\<close>

definition joined :: "tables \<Rightarrow> client \<Rightarrow> (client \<times> client_phone option) list" where
  "joined t c =
     (case filter (\<lambda>p. cp_client_id p = client_id c) (tbl_client_phone t) of
        [] \<Rightarrow> [(c, None)]
      | ps \<Rightarrow> map (\<lambda>p. (c, Some p)) ps)"

definition left_join :: "tables \<Rightarrow> (client \<times> client_phone option) list" where
  "left_join t = concat (map (joined t) (tbl_client t))"

text \<open>The four columns a search can name, and the value of each in a row of the join.\<close>

datatype column = Col_first_name | Col_last_name | Col_email | Col_phone

fun column_value :: "column \<Rightarrow> client \<times> client_phone option \<Rightarrow> pystr option" where
  "column_value Col_first_name (c, p) = Some (first_name c)"
| "column_value Col_last_name (c, p) = Some (last_name c)"
| "column_value Col_email (c, p) = email c"
| "column_value Col_phone (c, p) = map_option phone p"

definition client_columns :: "client \<Rightarrow> found_row" where
  "client_columns c = (client_id c, first_name c, last_name c, email c)"

text \<open>
  \<open>SELECT DISTINCT c.client_id, c.first_name, c.last_name, c.email FROM\<close> the join
  \<open>WHERE {} = %s\<close>, the column in place of the braces. A comparison with NULL is not
  true.
\<close>

definition select_distinct :: "column \<Rightarrow> pystr \<Rightarrow> tables \<Rightarrow> found_row list" where
  "select_distinct col v t =
     remdups (map (\<lambda>j. client_columns (fst j))
                  (filter (\<lambda>j. column_value col j = Some v) (left_join t)))"

definition sql_select_distinct :: "column \<Rightarrow> pystr \<Rightarrow> conn \<Rightarrow> found_row list outcome" where
  "sql_select_distinct col v s = (Inr (select_distinct col v (work s)), s)"

text \<open>
  \<open>string_agg(cp.phone, ', ')\<close>: the non-NULL values joined by the delimiter, NULL when
  there is none.
\<close>

fun join_with :: "pystr \<Rightarrow> pystr list \<Rightarrow> pystr" where
  "join_with d [] = []"
| "join_with d [x] = x"
| "join_with d (x # y # ys) = x @ d @ join_with d (y # ys)"

definition string_agg :: "pystr option list \<Rightarrow> pystr \<Rightarrow> pystr option" where
  "string_agg vs d =
     (case concat (map (\<lambda>v. case v of None \<Rightarrow> [] | Some x \<Rightarrow> [x]) vs) of
        [] \<Rightarrow> None
      | xs \<Rightarrow> Some (join_with d xs))"

text \<open>
  The listing has no \<open>ORDER BY\<close>: the server is free in the order of the rows it
  returns and in the order of the values it hands to \<open>string_agg\<close> within a group. What
  it does with a list is a parameter of the query; that it only rearranges is the
  condition \<open>plan_ok\<close>.
\<close>

record plan =
  rows_order :: "listed_row list \<Rightarrow> listed_row list"
  phones_order :: "found_row \<Rightarrow> pystr option list \<Rightarrow> pystr option list"


text \<open>
  \<open>SELECT c.client_id, c.first_name, c.last_name, c.email, string_agg(cp.phone, ', ')
  FROM\<close> the join \<open>GROUP BY c.client_id, c.first_name, c.last_name, c.email\<close>: one row
  for each distinct value of the four grouping columns.
\<close>

definition select_grouped :: "plan \<Rightarrow> tables \<Rightarrow> listed_row list" where
  "select_grouped pl t =
     (let js = left_join t
      in rows_order pl
           (map (\<lambda>k. case k of (i, f, l, e) \<Rightarrow>
                   (i, f, l, e,
                    string_agg (phones_order pl k
                                  (map (\<lambda>j. map_option phone (snd j))
                                       (filter (\<lambda>j. client_columns (fst j) = k) js)))
                               (ascii '', '')))
                (remdups (map (\<lambda>j. client_columns (fst j)) js))))"

definition sql_select_grouped :: "plan \<Rightarrow> conn \<Rightarrow> listed_row list outcome" where
  "sql_select_grouped pl s = (Inr (select_grouped pl (work s)), s)"

section \<open>The operations of \<open>ClientDatabase\<close>\<close>

text \<open>
  Each method takes the connection and returns it with what the method returns, or with
  the exception that leaves the method. \<open>create_db_schema\<close> creates the two tables where
  they do not exist; a database without them is the one with both empty.
\<close>

definition connect :: conn where
  "connect =
     \<lparr>committed = \<lparr>tbl_client = [], tbl_client_phone = []\<rparr>,
      work = \<lparr>tbl_client = [], tbl_client_phone = []\<rparr>,
      txn = Idle, client_id_seq = 0, client_phone_id_seq = 0, history = [], stdout = []\<rparr>"

definition create_db_schema :: "conn \<Rightarrow> unit outcome" where
  "create_db_schema s =
     (case execute (\<lambda>s. (Inr (), s)) s of
        (Inl e, s1) \<Rightarrow> (Inl e, s1)
      | (Inr u, s1) \<Rightarrow>
          (case execute (\<lambda>s. (Inr (), s)) s1 of
             (Inl e, s2) \<Rightarrow> (Inl e, s2)
           | (Inr u, s2) \<Rightarrow> (Inr (), commit s2)))"

definition insert_client_phone :: "int \<Rightarrow> pystr \<Rightarrow> conn \<Rightarrow> unit outcome" where
  "insert_client_phone cid ph s =
     (case execute (sql_insert_client_phone cid ph) s of
        (Inl CheckViolation, s1) \<Rightarrow> (Inr (), rollback (print Incorrect_phone s1))
      | (Inl e, s1) \<Rightarrow> (Inl e, s1)
      | (Inr u, s1) \<Rightarrow> (Inr (), s1))"

text \<open>The loop \<open>for phone in phone_list\<close> of \<open>add_client\<close>.\<close>

fun insert_phones :: "int \<Rightarrow> pystr list \<Rightarrow> conn \<Rightarrow> unit outcome" where
  "insert_phones cid [] s = (Inr (), s)"
| "insert_phones cid (ph # phs) s =
     (case insert_client_phone cid ph s of
        (Inl e, s1) \<Rightarrow> (Inl e, s1)
      | (Inr u, s1) \<Rightarrow> insert_phones cid phs s1)"

text \<open>
  The argument \<open>phone_list\<close>: \<open>None\<close>, an \<open>Iterable\<close> of phones, or a value that is neither
  (a number, say).
\<close>

datatype phone_list = No_list | Phones "pystr list" | Not_iterable

definition add_client ::
  "pystr \<Rightarrow> pystr \<Rightarrow> pystr option \<Rightarrow> phone_list \<Rightarrow> conn \<Rightarrow> int option outcome" where
  "add_client fn ln em pl s =
     (case execute (sql_insert_client fn ln em) s of
        (Inl CheckViolation, s1) \<Rightarrow> (Inr None, rollback (print Incorrect_email s1))
      | (Inl e, s1) \<Rightarrow> (Inl e, s1)
      | (Inr new_client_id, s1) \<Rightarrow>
          (let s2 = commit s1
           in case pl of
                Phones phs \<Rightarrow>
                  (case insert_phones new_client_id phs s2 of
                     (Inl e, s3) \<Rightarrow> (Inl e, s3)
                   | (Inr u, s3) \<Rightarrow> (Inr (Some new_client_id), commit s3))
              | _ \<Rightarrow> (Inr (Some new_client_id), s2)))"

definition add_client_phone :: "int \<Rightarrow> pystr \<Rightarrow> conn \<Rightarrow> unit outcome" where
  "add_client_phone cid ph s =
     (case insert_client_phone cid ph s of
        (Inl e, s1) \<Rightarrow> (Inl e, s1)
      | (Inr u, s1) \<Rightarrow> (Inr (), commit s1))"

definition update_client :: "int \<Rightarrow> pystr \<Rightarrow> pystr \<Rightarrow> pystr option \<Rightarrow> conn \<Rightarrow> unit outcome" where
  "update_client cid new_fn new_ln new_em s =
     (case execute (sql_update_client cid new_fn new_ln new_em) s of
        (Inl e, s1) \<Rightarrow> (Inl e, s1)
      | (Inr u, s1) \<Rightarrow> (Inr (), commit s1))"

definition del_client_phone :: "int \<Rightarrow> conn \<Rightarrow> unit outcome" where
  "del_client_phone pid s =
     (case execute (sql_delete_phone pid) s of
        (Inl e, s1) \<Rightarrow> (Inl e, s1)
      | (Inr u, s1) \<Rightarrow> (Inr (), commit s1))"

definition del_client :: "int \<Rightarrow> conn \<Rightarrow> unit outcome" where
  "del_client cid s =
     (case execute (sql_delete_phones_of cid) s of
        (Inl e, s1) \<Rightarrow> (Inl e, s1)
      | (Inr u, s1) \<Rightarrow>
          (case execute (sql_delete_client cid) s1 of
             (Inl e, s2) \<Rightarrow> (Inl e, s2)
           | (Inr u, s2) \<Rightarrow> (Inr (), commit s2)))"

text \<open>
  The dictionary \<open>fields_to_search\<close>. Its keys are the Russian words for "name"
  (U+0438 U+043C U+044F), "surname" (U+0444 U+0430 U+043C U+0438 U+043B U+0438 U+044F)
  and "phone" (U+0442 U+0435 U+043B U+0435 U+0444 U+043E U+043D), and \<open>email\<close>.
\<close>

definition key_name :: pystr where
  "key_name = [1080, 1084, 1103]"

definition key_surname :: pystr where
  "key_surname = [1092, 1072, 1084, 1080, 1083, 1080, 1103]"

definition key_email :: pystr where
  "key_email = ascii ''email''"

definition key_phone :: pystr where
  "key_phone = [1090, 1077, 1083, 1077, 1092, 1086, 1085]"

definition fields_to_search :: "(pystr \<times> column) list" where
  "fields_to_search =
     [(key_name, Col_first_name),
      (key_surname, Col_last_name),
      (key_email, Col_email),
      (key_phone, Col_phone)]"

definition find_client :: "pystr \<Rightarrow> pystr \<Rightarrow> conn \<Rightarrow> found_row list option outcome" where
  "find_client field_name field_value s =
     (case map_of fields_to_search (lower field_name) of
        None \<Rightarrow> (Inr None, print Unknown_field s)
      | Some db_field_name \<Rightarrow>
          (case execute (sql_select_distinct db_field_name field_value) s of
             (Inl e, s1) \<Rightarrow> (Inl e, s1)
           | (Inr rows, s1) \<Rightarrow> (Inr (Some rows), s1)))"

text \<open>The plan is the server's, for the one query of \<open>print_all_clients\<close>.\<close>

definition print_all_clients :: "plan \<Rightarrow> conn \<Rightarrow> unit outcome" where
  "print_all_clients pl s =
     (case execute (sql_select_grouped pl) s of
        (Inl e, s1) \<Rightarrow> (Inl e, s1)
      | (Inr rows, s1) \<Rightarrow> (Inr (), foldl (\<lambda>s r. print (Listed r) s) s1 rows))"

section \<open>Notions used to state the properties\<close>

text \<open>
  The sequences run ahead of the keys in use, so the next value of either is a fresh
  key. This holds of an empty database and is kept by every statement above, which take
  keys from the sequences only.
\<close>

definition seqs_ahead :: "conn \<Rightarrow> bool" where
  "seqs_ahead s \<longleftrightarrow>
     (\<forall>c \<in> set (tbl_client (work s)). client_id c \<le> client_id_seq s) \<and>
     (\<forall>p \<in> set (tbl_client_phone (work s)). client_phone_id p \<le> client_phone_id_seq s)"

text \<open>
  The three values of a client fit their columns; a sequence that has handed out \<open>v\<close>
  can hand out \<open>n\<close> more values.
\<close>

definition client_fits :: "pystr \<Rightarrow> pystr \<Rightarrow> pystr option \<Rightarrow> bool" where
  "client_fits fn ln em \<longleftrightarrow>
     length fn \<le> 100 \<and> length ln \<le> 100 \<and>
     (case em of None \<Rightarrow> True | Some e \<Rightarrow> length e \<le> 100)"

definition seq_room :: "int \<Rightarrow> nat \<Rightarrow> bool" where
  "seq_room v n \<longleftrightarrow> 0 \<le> v \<and> v + int n \<le> 2147483647"

text \<open>Referential integrity: every phone belongs to a client of the table.\<close>

definition refs_ok :: "tables \<Rightarrow> bool" where
  "refs_ok t \<longleftrightarrow> (\<forall>p \<in> set (tbl_client_phone t). cp_client_id p \<in> client_id ` set (tbl_client t))"

text \<open>
  The phones of a list fit their column and the phone sequence has a value for each of
  them (a rejected phone takes one too).
\<close>

definition phones_fit :: "conn \<Rightarrow> pystr list \<Rightarrow> bool" where
  "phones_fit s phs \<longleftrightarrow>
     list_all (\<lambda>ph. length ph \<le> 50) phs \<and> seq_room (client_phone_id_seq s) (length phs)"

text \<open>The row that \<open>add_client\<close> inserts: it takes the next value of the sequence.\<close>

definition inserted_client :: "conn \<Rightarrow> pystr \<Rightarrow> pystr \<Rightarrow> pystr option \<Rightarrow> client" where
  "inserted_client s fn ln em =
     \<lparr>client_id = client_id_seq s + 1, first_name = fn, last_name = ln, email = em\<rparr>"

text \<open>
  The phone rows that a phone list leaves behind, for client \<open>cid\<close> and with \<open>n\<close> the
  last value of the phone sequence: the phone at position \<open>i\<close> takes the key \<open>n + i\<close>
  whether it is accepted or not, and its row stays when it and every phone after it in
  the list pass the check.
\<close>

fun kept_phones :: "int \<Rightarrow> int \<Rightarrow> pystr list \<Rightarrow> client_phone list" where
  "kept_phones cid n [] = []"
| "kept_phones cid n (ph # phs) =
     (if list_all phone_ok (ph # phs)
      then [\<lparr>client_phone_id = n + 1, cp_client_id = cid, phone = ph\<rparr>] else [])
     @ kept_phones cid (n + 1) phs"

definition rejected :: "pystr list \<Rightarrow> nat" where
  "rejected phs = length (filter (\<lambda>ph. \<not> phone_ok ph) phs)"

text \<open>The tables without a client and without the phones of that client.\<close>

definition without_client :: "int \<Rightarrow> tables \<Rightarrow> tables" where
  "without_client cid t =
     \<lparr>tbl_client = filter (\<lambda>c. client_id c \<noteq> cid) (tbl_client t),
      tbl_client_phone = filter (\<lambda>p. cp_client_id p \<noteq> cid) (tbl_client_phone t)\<rparr>"

text \<open>The tables with the three fields of a client replaced.\<close>

definition with_client_fields :: "int \<Rightarrow> pystr \<Rightarrow> pystr \<Rightarrow> pystr option \<Rightarrow> tables \<Rightarrow> tables" where
  "with_client_fields cid fn ln em t =
     \<lparr>tbl_client = map (\<lambda>c. if client_id c = cid
                          then \<lparr>client_id = cid, first_name = fn, last_name = ln, email = em\<rparr>
                          else c) (tbl_client t),
      tbl_client_phone = tbl_client_phone t\<rparr>"

text \<open>A client has the value in the column: in its own row, or in one of its phones.\<close>

fun has_value :: "tables \<Rightarrow> column \<Rightarrow> pystr \<Rightarrow> client \<Rightarrow> bool" where
  "has_value t Col_first_name v c = (first_name c = v)"
| "has_value t Col_last_name v c = (last_name c = v)"
| "has_value t Col_email v c = (email c = Some v)"
| "has_value t Col_phone v c =
     (\<exists>p \<in> set (tbl_client_phone t). cp_client_id p = client_id c \<and> phone p = v)"






text \<open>
  A database to run the operations on: two clients, the first with three phones of
  which two have the same number, the second with none; one phone key was used up by a
  rejected phone.
\<close>

definition sample_tables :: tables where
  "sample_tables =
     \<lparr>tbl_client =
        [\<lparr>client_id = 1, first_name = ascii ''Ann'', last_name = ascii ''Lee'',
          email = Some (ascii ''ann@lee.org'')\<rparr>,
         \<lparr>client_id = 2, first_name = ascii ''Bob'', last_name = ascii ''Ray'', email = None\<rparr>],
      tbl_client_phone =
        [\<lparr>client_phone_id = 1, cp_client_id = 1, phone = ascii ''555-1234''\<rparr>,
         \<lparr>client_phone_id = 2, cp_client_id = 1, phone = ascii ''555-1234''\<rparr>,
         \<lparr>client_phone_id = 4, cp_client_id = 1, phone = ascii ''(495)000-00-00''\<rparr>]\<rparr>"

definition sample :: conn where
  "sample =
     \<lparr>committed = sample_tables, work = sample_tables, txn = Idle,
      client_id_seq = 2, client_phone_id_seq = 4, history = [], stdout = []\<rparr>"


text \<open>
  The integrity of the tables under given values of the two sequences: the keys of
  each table are distinct and not above the sequence, and every phone has a client.
\<close>

definition tables_ok :: "tables \<Rightarrow> int \<Rightarrow> int \<Rightarrow> bool" where
  "tables_ok t cs ps \<longleftrightarrow>
     distinct (map client_id (tbl_client t)) \<and>
     distinct (map client_phone_id (tbl_client_phone t)) \<and>
     (\<forall>c \<in> set (tbl_client t). client_id c \<le> cs) \<and>
     (\<forall>p \<in> set (tbl_client_phone t). client_phone_id p \<le> ps) \<and>
     refs_ok t"

text \<open>
  The integrity of a connection: of the tables it sees and of the committed ones, which
  are the same when no transaction is open.
\<close>

definition sound :: "conn \<Rightarrow> bool" where
  "sound s \<longleftrightarrow>
     tables_ok (work s) (client_id_seq s) (client_phone_id_seq s) \<and>
     tables_ok (committed s) (client_id_seq s) (client_phone_id_seq s) \<and>
     (txn s = Idle \<longrightarrow> work s = committed s)"

text \<open>What a statement must do for \<open>execute\<close> to keep the connection sound.\<close>

definition keeps_sound :: "(conn \<Rightarrow> 'a outcome) \<Rightarrow> bool" where
  "keeps_sound stmt \<longleftrightarrow>
     (\<forall>s. tables_ok (work s) (client_id_seq s) (client_phone_id_seq s) \<longrightarrow>
        (let s1 = snd (stmt s)
         in tables_ok (work s1) (client_id_seq s1) (client_phone_id_seq s1) \<and>
            committed s1 = committed s \<and> txn s1 = txn s \<and>
            client_id_seq s \<le> client_id_seq s1 \<and>
            client_phone_id_seq s \<le> client_phone_id_seq s1))"

section \<open>Auxiliary facts\<close>

subsection \<open>The matcher decides the words of an expression\<close>

inductive_cases denotes_FailE: "denotes Fail w"
inductive_cases denotes_EpsE: "denotes Eps w"
inductive_cases denotes_ClsE: "denotes (Cls is) w"
inductive_cases denotes_CatE: "denotes (Cat r q) w"
inductive_cases denotes_AltE: "denotes (Alt r q) w"

lemma nullable_denotes: "nullable r \<Longrightarrow> denotes r []"
proof (induction r)
  case (Cat r q)
  then have "denotes (Cat r q) ([] @ [])"
    by (intro d_cat) simp_all
  then show ?case by simp
qed (auto intro: denotes.intros)

lemma denotes_empty_nullable:
  assumes "denotes r w" and "w = []"
  shows "nullable r"
  using assms by (induction rule: denotes.induct) simp_all

lemma nullable_iff: "nullable r \<longleftrightarrow> denotes r []"
  using nullable_denotes denotes_empty_nullable by blast

lemma after_sound: "denotes (after c r) w \<Longrightarrow> denotes r (c # w)"
proof (induction r arbitrary: w)
  case Fail
  then show ?case by (auto elim: denotes_FailE)
next
  case Eps
  then show ?case by (auto elim: denotes_FailE)
next
  case (Cls "is")
  show ?case
  proof (cases "list_ex (\<lambda>i. item_has i c) is")
    case True
    with Cls have "w = []" by (auto elim: denotes_EpsE)
    moreover have "denotes (Cls is) [c]"
      using True by (intro d_cls) (simp add: list_ex_iff)
    ultimately show ?thesis by simp
  next
    case False
    with Cls show ?thesis by (auto elim: denotes_FailE)
  qed
next
  case (Cat r q)
  have left: "denotes (Cat r q) (c # w)" if "denotes (Cat (after c r) q) w"
  proof -
    from that obtain u v where w: "w = u @ v" and u: "denotes (after c r) u" and v: "denotes q v"
      by (auto elim: denotes_CatE)
    from u have "denotes r (c # u)" by (rule Cat.IH(1))
    then have "denotes (Cat r q) ((c # u) @ v)" using v by (rule d_cat)
    with w show ?thesis by simp
  qed
  show ?case
  proof (cases "nullable r")
    case True
    with Cat.prems have "denotes (Cat (after c r) q) w \<or> denotes (after c q) w"
      by (auto elim: denotes_AltE)
    then show ?thesis
    proof
      assume "denotes (Cat (after c r) q) w"
      then show ?thesis by (rule left)
    next
      assume "denotes (after c q) w"
      then have "denotes q (c # w)" by (rule Cat.IH(2))
      moreover have "denotes r []" using True by (rule nullable_denotes)
      ultimately have "denotes (Cat r q) ([] @ c # w)" by (intro d_cat)
      then show ?thesis by simp
    qed
  next
    case False
    with Cat.prems show ?thesis by (simp add: left)
  qed
next
  case (Alt r q)
  from Alt.prems have "denotes (after c r) w \<or> denotes (after c q) w"
    by (auto elim: denotes_AltE)
  then show ?case
    using Alt.IH by (auto intro: d_altl d_altr)
next
  case (Many r)
  from Many.prems obtain u v where w: "w = u @ v" and u: "denotes (after c r) u"
    and v: "denotes (Many r) v"
    by (auto elim: denotes_CatE)
  from u have "denotes r (c # u)" by (rule Many.IH)
  then have "denotes (Many r) ((c # u) @ v)" using v by (rule d_many)
  with w show ?case by simp
qed

lemma after_complete:
  assumes "denotes r x" and "x = c # w"
  shows "denotes (after c r) w"
  using assms
proof (induction arbitrary: w rule: denotes.induct)
  case d_eps
  then show ?case by simp
next
  case (d_cls "is" a)
  then show ?case by (auto simp: list_ex_iff intro: denotes.d_eps)
next
  case (d_cat r u q v)
  show ?case
  proof (cases u)
    case Nil
    with d_cat have "denotes (after c q) w" and "nullable r"
      by (simp_all add: denotes_empty_nullable)
    then show ?thesis by (simp add: d_altr)
  next
    case (Cons a u')
    with d_cat.prems have a: "a = c" and w: "w = u' @ v" by simp_all
    have "denotes (after c r) u'"
      using d_cat.IH(1) Cons a by simp
    then have "denotes (Cat (after c r) q) (u' @ v)"
      using d_cat.hyps(2) by (rule denotes.d_cat)
    with w show ?thesis by (simp add: d_altl)
  qed
next
  case (d_altl r u q)
  then show ?case by (simp add: denotes.d_altl)
next
  case (d_altr q u r)
  then show ?case by (simp add: denotes.d_altr)
next
  case (d_many0 r)
  then show ?case by simp
next
  case (d_many r u v)
  show ?case
  proof (cases u)
    case Nil
    with d_many show ?thesis by simp
  next
    case (Cons a u')
    with d_many.prems have a: "a = c" and w: "w = u' @ v" by simp_all
    have "denotes (after c r) u'"
      using d_many.IH(1) Cons a by simp
    then have "denotes (Cat (after c r) (Many r)) (u' @ v)"
      using d_many.hyps(2) by (rule denotes.d_cat)
    with w show ?thesis by simp
  qed
qed

subsection \<open>What the operations compute\<close>

lemmas run_defs =
  add_client_def add_client_phone_def update_client_def del_client_def del_client_phone_def
  find_client_def print_all_clients_def insert_client_phone_def
  execute_def commit_def rollback_def print_def
  sql_insert_client_def sql_insert_client_phone_def sql_update_client_def
  sql_delete_phone_def sql_delete_phones_of_def sql_delete_client_def
  sql_select_distinct_def sql_select_grouped_def select_distinct_def select_grouped_def
  left_join_def joined_def client_columns_def string_agg_def
  fields_to_search_def key_name_def key_surname_def key_email_def key_phone_def
  lower_def lower_cp_def
  email_ok_def phone_ok_def email_regexp_def phone_regexp_def opt_def some_def
  one_to_four_def chr_def ascii_def
  varchar_def varchar_null_def int4_def nextval_def
  connect_def sample_def sample_tables_def Let_def

lemma varchar_fits: "length v \<le> n \<Longrightarrow> varchar n v = Inr v"
  by (simp add: varchar_def)

lemma varchar_null_fits:
  "(case em of None \<Rightarrow> True | Some e \<Rightarrow> length e \<le> n) \<Longrightarrow> varchar_null n em = Inr em"
  by (simp add: varchar_null_def varchar_fits split: option.splits)

lemma nextval_room: "v < 2147483647 \<Longrightarrow> nextval v = Inr (v + 1)"
  by (simp add: nextval_def)

lemma sql_insert_client_fits:
  assumes "client_fits fn ln em" and "client_id_seq s < 2147483647"
  shows "sql_insert_client fn ln em s =
     (let new_id = client_id_seq s + 1;
          s1 = s\<lparr>client_id_seq := new_id\<rparr>
      in if \<not> email_ok em then (Inl CheckViolation, s1)
         else if new_id \<in> set (map client_id (tbl_client (work s))) then (Inl UniqueViolation, s1)
         else (Inr new_id,
               s1\<lparr>work := (work s)\<lparr>tbl_client := tbl_client (work s) @
                  [\<lparr>client_id = new_id, first_name = fn, last_name = ln, email = em\<rparr>]\<rparr>\<rparr>))"
  using assms
  by (simp add: sql_insert_client_def client_fits_def varchar_fits varchar_null_fits nextval_room
      Let_def)

lemma sql_insert_client_phone_fits:
  assumes "int4 cid" and "length ph \<le> 50" and "client_phone_id_seq s < 2147483647"
  shows "sql_insert_client_phone cid ph s =
     (let new_id = client_phone_id_seq s + 1;
          s1 = s\<lparr>client_phone_id_seq := new_id\<rparr>
      in if \<not> phone_ok ph then (Inl CheckViolation, s1)
         else if new_id \<in> set (map client_phone_id (tbl_client_phone (work s)))
           then (Inl UniqueViolation, s1)
         else if cid \<notin> set (map client_id (tbl_client (work s)))
           then (Inl ForeignKeyViolation, s1)
         else (Inr (),
               s1\<lparr>work := (work s)\<lparr>tbl_client_phone := tbl_client_phone (work s) @
                  [\<lparr>client_phone_id = new_id, cp_client_id = cid, phone = ph\<rparr>]\<rparr>\<rparr>))"
  using assms
  by (simp add: sql_insert_client_phone_def varchar_fits nextval_room Let_def)

lemma sql_update_client_fits:
  assumes "client_fits fn ln em"
  shows "sql_update_client cid fn ln em s =
     (if list_ex (\<lambda>c. client_id c = cid) (tbl_client (work s)) \<and> \<not> email_ok em
      then (Inl CheckViolation, s)
      else (Inr (),
            s\<lparr>work := (work s)\<lparr>tbl_client :=
               map (\<lambda>c. if client_id c = cid
                         then c\<lparr>first_name := fn, last_name := ln, email := em\<rparr> else c)
                   (tbl_client (work s))\<rparr>\<rparr>))"
  using assms
  by (simp add: sql_update_client_def client_fits_def varchar_fits varchar_null_fits)

lemma insert_client_phone_rejected:
  assumes "txn s \<noteq> InError" and "\<not> phone_ok ph"
    and "int4 cid" and "length ph \<le> 50" and "client_phone_id_seq s < 2147483647"
  shows "insert_client_phone cid ph s =
     (Inr (),
      s\<lparr>work := committed s, txn := Idle, client_phone_id_seq := client_phone_id_seq s + 1,
        history := history s @ [RolledBack], stdout := stdout s @ [Incorrect_phone]\<rparr>)"
  using assms
  by (simp add: insert_client_phone_def execute_def sql_insert_client_phone_fits
      Let_def rollback_def print_def)

lemma insert_client_phone_accepted:
  assumes "txn s \<noteq> InError" and "phone_ok ph"
    and "client_phone_id_seq s + 1 \<notin> client_phone_id ` set (tbl_client_phone (work s))"
    and "cid \<in> client_id ` set (tbl_client (work s))"
    and "int4 cid" and "length ph \<le> 50" and "client_phone_id_seq s < 2147483647"
  shows "insert_client_phone cid ph s =
     (Inr (),
      s\<lparr>work := (work s)\<lparr>tbl_client_phone := tbl_client_phone (work s) @
           [\<lparr>client_phone_id = client_phone_id_seq s + 1, cp_client_id = cid, phone = ph\<rparr>]\<rparr>,
        txn := InTrans, client_phone_id_seq := client_phone_id_seq s + 1\<rparr>)"
  using assms
  by (simp add: insert_client_phone_def execute_def sql_insert_client_phone_fits Let_def)

lemma insert_phones_result:
  assumes "txn s \<noteq> InError"
    and "cid \<in> client_id ` set (tbl_client (work s))"
    and "cid \<in> client_id ` set (tbl_client (committed s))"
    and "\<forall>p \<in> set (tbl_client_phone (work s)). client_phone_id p \<le> client_phone_id_seq s"
    and "\<forall>p \<in> set (tbl_client_phone (committed s)). client_phone_id p \<le> client_phone_id_seq s"
    and "int4 cid"
    and "\<forall>ph \<in> set phs. length ph \<le> 50"
    and "client_phone_id_seq s + int (length phs) \<le> 2147483647"
  shows "insert_phones cid phs s =
     (Inr (),
      s\<lparr>work := (let t = (if list_all phone_ok phs then work s else committed s)
                  in t\<lparr>tbl_client_phone := tbl_client_phone t @
                         kept_phones cid (client_phone_id_seq s) phs\<rparr>),
        txn := (if phs = [] then txn s else if phone_ok (last phs) then InTrans else Idle),
        client_phone_id_seq := client_phone_id_seq s + int (length phs),
        history := history s @ replicate (rejected phs) RolledBack,
        stdout := stdout s @ replicate (rejected phs) Incorrect_phone\<rparr>)"
  using assms
proof (induction phs arbitrary: s)
  case Nil
  then show ?case by (simp add: rejected_def)
next
  case (Cons ph phs)
  have w: "length ph \<le> 50" and r: "client_phone_id_seq s < 2147483647"
    using Cons.prems(7,8) by simp_all
  show ?case
  proof (cases "phone_ok ph")
    case True
    let ?s1 = "s\<lparr>work := (work s)\<lparr>tbl_client_phone := tbl_client_phone (work s) @
           [\<lparr>client_phone_id = client_phone_id_seq s + 1, cp_client_id = cid, phone = ph\<rparr>]\<rparr>,
        txn := InTrans, client_phone_id_seq := client_phone_id_seq s + 1\<rparr>"
    have fresh: "client_phone_id_seq s + 1 \<notin> client_phone_id ` set (tbl_client_phone (work s))"
      using Cons.prems(4) by fastforce
    have step: "insert_client_phone cid ph s = (Inr (), ?s1)"
      using insert_client_phone_accepted[OF Cons.prems(1) True fresh Cons.prems(2,6) w r] .
    have ih: "insert_phones cid phs ?s1 = (Inr (),
      ?s1\<lparr>work := (let t = (if list_all phone_ok phs then work ?s1 else committed ?s1)
                  in t\<lparr>tbl_client_phone := tbl_client_phone t @
                         kept_phones cid (client_phone_id_seq ?s1) phs\<rparr>),
        txn := (if phs = [] then txn ?s1 else if phone_ok (last phs) then InTrans else Idle),
        client_phone_id_seq := client_phone_id_seq ?s1 + int (length phs),
        history := history ?s1 @ replicate (rejected phs) RolledBack,
        stdout := stdout ?s1 @ replicate (rejected phs) Incorrect_phone\<rparr>)"
      apply (rule Cons.IH)
      using Cons.prems by (auto simp: order.trans[OF _ less_imp_le] intro: order.trans)
    show ?thesis
      using True by (simp add: step ih rejected_def Let_def)
  next
    case False
    let ?s1 = "s\<lparr>work := committed s, txn := Idle, client_phone_id_seq := client_phone_id_seq s + 1,
        history := history s @ [RolledBack], stdout := stdout s @ [Incorrect_phone]\<rparr>"
    have step: "insert_client_phone cid ph s = (Inr (), ?s1)"
      using insert_client_phone_rejected[OF Cons.prems(1) False Cons.prems(6) w r] .
    have ih: "insert_phones cid phs ?s1 = (Inr (),
      ?s1\<lparr>work := (let t = (if list_all phone_ok phs then work ?s1 else committed ?s1)
                  in t\<lparr>tbl_client_phone := tbl_client_phone t @
                         kept_phones cid (client_phone_id_seq ?s1) phs\<rparr>),
        txn := (if phs = [] then txn ?s1 else if phone_ok (last phs) then InTrans else Idle),
        client_phone_id_seq := client_phone_id_seq ?s1 + int (length phs),
        history := history ?s1 @ replicate (rejected phs) RolledBack,
        stdout := stdout ?s1 @ replicate (rejected phs) Incorrect_phone\<rparr>)"
      apply (rule Cons.IH)
      using Cons.prems by auto
    show ?thesis
      using False by (simp add: step ih rejected_def Let_def replicate_append_same)
  qed
qed

lemma kept_none: "phs = [] \<or> \<not> phone_ok (last phs) \<Longrightarrow> kept_phones cid n phs = []"
proof (induction phs arbitrary: n)
  case Nil
  then show ?case by simp
next
  case (Cons ph phs)
  show ?case
  proof (cases "phs = []")
    case True
    with Cons.prems show ?thesis by simp
  next
    case False
    with Cons.prems have bad: "\<not> phone_ok (last phs)" by simp
    moreover have "last phs \<in> set phs" using False by simp
    ultimately have "\<not> list_all phone_ok (ph # phs)"
      by (auto simp: list_all_iff)
    moreover have "kept_phones cid (n + 1) phs = []"
      using Cons.IH bad by blast
    ultimately show ?thesis by simp
  qed
qed

lemma kept_all: "list_all phone_ok phs \<Longrightarrow> map phone (kept_phones cid n phs) = phs"
  by (induction phs arbitrary: n) auto

lemma kept_suffix: "map phone (kept_phones cid n phs) = rev (takeWhile phone_ok (rev phs))"
proof (induction phs arbitrary: n)
  case Nil
  then show ?case by simp
next
  case (Cons ph phs)
  show ?case
  proof (cases "list_all phone_ok phs")
    case True
    then have "takeWhile phone_ok (rev phs @ [ph]) = rev phs @ takeWhile phone_ok [ph]"
      by (intro takeWhile_append2) (simp add: list_all_iff)
    with True show ?thesis
      by (simp add: kept_all)
  next
    case False
    then obtain x where "x \<in> set (rev phs)" "\<not> phone_ok x"
      by (auto simp: list_all_iff)
    then have "takeWhile phone_ok (rev phs @ [ph]) = takeWhile phone_ok (rev phs)"
      by (simp add: takeWhile_append1)
    with False Cons.IH show ?thesis by simp
  qed
qed

lemma add_client_insert:
  assumes "txn s \<noteq> InError" and "email_ok em"
    and "\<forall>c \<in> set (tbl_client (work s)). client_id c \<le> client_id_seq s"
    and "client_fits fn ln em" and "client_id_seq s < 2147483647"
  shows "execute (sql_insert_client fn ln em) s =
     (Inr (client_id_seq s + 1),
      s\<lparr>work := (work s)\<lparr>tbl_client := tbl_client (work s) @ [inserted_client s fn ln em]\<rparr>,
        txn := InTrans, client_id_seq := client_id_seq s + 1\<rparr>)"
proof -
  have "client_id_seq s + 1 \<notin> client_id ` set (tbl_client (work s))"
    using assms(3) by fastforce
  then show ?thesis
    using assms(1,2,4,5)
    by (simp add: execute_def sql_insert_client_fits Let_def inserted_client_def)
qed

lemma add_client_without_phones:
  assumes "txn s \<noteq> InError" and "email_ok em"
    and "\<forall>c \<in> set (tbl_client (work s)). client_id c \<le> client_id_seq s"
    and "pl = No_list \<or> pl = Not_iterable"
    and "client_fits fn ln em" and "client_id_seq s < 2147483647"
  shows "add_client fn ln em pl s =
     (Inr (Some (client_id_seq s + 1)),
      s\<lparr>committed := (work s)\<lparr>tbl_client := tbl_client (work s) @ [inserted_client s fn ln em]\<rparr>,
        work := (work s)\<lparr>tbl_client := tbl_client (work s) @ [inserted_client s fn ln em]\<rparr>,
        txn := Idle, client_id_seq := client_id_seq s + 1,
        history := history s @
          [Committed ((work s)\<lparr>tbl_client := tbl_client (work s) @ [inserted_client s fn ln em]\<rparr>)]\<rparr>)"
  using assms(4)
  by (auto simp: add_client_def add_client_insert[OF assms(1-3,5,6)] commit_def)

lemma add_client_with_phones:
  assumes "txn s \<noteq> InError" and "email_ok em"
    and "\<forall>c \<in> set (tbl_client (work s)). client_id c \<le> client_id_seq s"
    and "\<forall>p \<in> set (tbl_client_phone (work s)). client_phone_id p \<le> client_phone_id_seq s"
    and "client_fits fn ln em" and "seq_room (client_id_seq s) 1"
    and "\<forall>ph \<in> set phs. length ph \<le> 50" and "seq_room (client_phone_id_seq s) (length phs)"
  shows "add_client fn ln em (Phones phs) s =
     (Inr (Some (client_id_seq s + 1)),
      s\<lparr>committed :=
          \<lparr>tbl_client = tbl_client (work s) @ [inserted_client s fn ln em],
           tbl_client_phone = tbl_client_phone (work s) @
             kept_phones (client_id_seq s + 1) (client_phone_id_seq s) phs\<rparr>,
        work :=
          \<lparr>tbl_client = tbl_client (work s) @ [inserted_client s fn ln em],
           tbl_client_phone = tbl_client_phone (work s) @
             kept_phones (client_id_seq s + 1) (client_phone_id_seq s) phs\<rparr>,
        txn := Idle, client_id_seq := client_id_seq s + 1,
        client_phone_id_seq := client_phone_id_seq s + int (length phs),
        history := history s @
          Committed \<lparr>tbl_client = tbl_client (work s) @ [inserted_client s fn ln em],
                     tbl_client_phone = tbl_client_phone (work s)\<rparr> #
          replicate (rejected phs) RolledBack @
          (if phs \<noteq> [] \<and> phone_ok (last phs)
           then [Committed
             \<lparr>tbl_client = tbl_client (work s) @ [inserted_client s fn ln em],
              tbl_client_phone = tbl_client_phone (work s) @
                kept_phones (client_id_seq s + 1) (client_phone_id_seq s) phs\<rparr>]
           else []),
        stdout := stdout s @ replicate (rejected phs) Incorrect_phone\<rparr>)"
proof -
  let ?t1 = "(work s)\<lparr>tbl_client := tbl_client (work s) @ [inserted_client s fn ln em]\<rparr>"
  let ?s2 = "s\<lparr>committed := ?t1, work := ?t1, txn := Idle, client_id_seq := client_id_seq s + 1,
        history := history s @ [Committed ?t1]\<rparr>"
  have l: "insert_phones (client_id_seq s + 1) phs ?s2 = (Inr (),
      ?s2\<lparr>work := (let t = (if list_all phone_ok phs then work ?s2 else committed ?s2)
                  in t\<lparr>tbl_client_phone := tbl_client_phone t @
                         kept_phones (client_id_seq s + 1) (client_phone_id_seq ?s2) phs\<rparr>),
        txn := (if phs = [] then txn ?s2 else if phone_ok (last phs) then InTrans else Idle),
        client_phone_id_seq := client_phone_id_seq ?s2 + int (length phs),
        history := history ?s2 @ replicate (rejected phs) RolledBack,
        stdout := stdout ?s2 @ replicate (rejected phs) Incorrect_phone\<rparr>)"
    apply (rule insert_phones_result)
    using assms(4,6,7,8) by (simp_all add: inserted_client_def seq_room_def int4_def)
  have a: "add_client fn ln em (Phones phs) s =
     (case insert_phones (client_id_seq s + 1) phs ?s2 of
        (Inl e, s3) \<Rightarrow> (Inl e, s3)
      | (Inr u, s3) \<Rightarrow> (Inr (Some (client_id_seq s + 1)), commit s3))"
  proof -
    have c: "commit (s\<lparr>work := ?t1, txn := InTrans, client_id_seq := client_id_seq s + 1\<rparr>) = ?s2"
      by (simp add: commit_def)
    have r: "client_id_seq s < 2147483647"
      using assms(6) by (simp add: seq_room_def)
    show ?thesis
      by (simp add: add_client_def add_client_insert[OF assms(1-3,5) r] c)
  qed
  show ?thesis
  proof (cases "phs \<noteq> [] \<and> phone_ok (last phs)")
    case True
    then show ?thesis
      unfolding a l by (simp add: commit_def Let_def)
  next
    case False
    then have "kept_phones (client_id_seq s + 1) (client_phone_id_seq s) phs = []"
      by (intro kept_none) auto
    with False show ?thesis
      unfolding a l by (auto simp add: commit_def Let_def)
  qed
qed

lemma del_client_result:
  assumes "txn s \<noteq> InError"
  shows "del_client cid s =
     (Inr (),
      s\<lparr>committed := without_client cid (work s), work := without_client cid (work s),
        txn := Idle, history := history s @ [Committed (without_client cid (work s))]\<rparr>)"
  using assms
  by (simp add: del_client_def execute_def sql_delete_phones_of_def sql_delete_client_def
      commit_def without_client_def list_ex_iff)

lemma refs_ok_without: "refs_ok t \<Longrightarrow> refs_ok (without_client cid t)"
  by (auto simp: refs_ok_def without_client_def)

lemma with_client_fields_absent:
  "cid \<notin> client_id ` set (tbl_client t) \<Longrightarrow> with_client_fields cid fn ln em t = t"
proof -
  assume a: "cid \<notin> client_id ` set (tbl_client t)"
  have "map (\<lambda>c. if client_id c = cid
                          then \<lparr>client_id = cid, first_name = fn, last_name = ln, email = em\<rparr>
                          else c) (tbl_client t) = tbl_client t"
    using a by (intro map_idI) auto
  then show ?thesis by (simp add: with_client_fields_def)
qed

lemma update_client_ok:
  assumes "txn s \<noteq> InError" and "cid \<in> client_id ` set (tbl_client (work s)) \<longrightarrow> email_ok em"
    and "client_fits fn ln em"
  shows "update_client cid fn ln em s =
     (Inr (),
      s\<lparr>committed := with_client_fields cid fn ln em (work s),
        work := with_client_fields cid fn ln em (work s),
        txn := Idle,
        history := history s @ [Committed (with_client_fields cid fn ln em (work s))]\<rparr>)"
proof -
  have m: "map (\<lambda>c. if client_id c = cid
                         then c\<lparr>first_name := fn, last_name := ln, email := em\<rparr> else c)
                   (tbl_client (work s)) =
          map (\<lambda>c. if client_id c = cid
                          then \<lparr>client_id = cid, first_name = fn, last_name = ln, email = em\<rparr>
                          else c) (tbl_client (work s))"
    by (intro map_cong) auto
  have e: "execute (sql_update_client cid fn ln em) s =
     (Inr (), s\<lparr>work := with_client_fields cid fn ln em (work s), txn := InTrans\<rparr>)"
    using assms(1,2) unfolding execute_def sql_update_client_fits [OF assms(3)] m
    by (auto simp: list_ex_iff with_client_fields_def)
  show ?thesis
    by (simp add: update_client_def e commit_def)
qed

lemma update_client_rejected:
  assumes "txn s \<noteq> InError" and "cid \<in> client_id ` set (tbl_client (work s))" and "\<not> email_ok em"
    and "client_fits fn ln em"
  shows "update_client cid fn ln em s = (Inl CheckViolation, s\<lparr>txn := InError\<rparr>)"
  using assms(1-3)
  by (auto simp: update_client_def execute_def sql_update_client_fits [OF assms(4)] list_ex_iff)

lemma find_client_known:
  assumes "txn s \<noteq> InError" and "map_of fields_to_search (lower f) = Some col"
  shows "find_client f v s = (Inr (Some (select_distinct col v (work s))), s\<lparr>txn := InTrans\<rparr>)"
  using assms by (simp add: find_client_def execute_def sql_select_distinct_def)

lemma left_join_joined: "left_join t = concat (map (joined t) (tbl_client t))"
  by (simp add: left_join_def)

lemma in_joined:
  "(c', po) \<in> set (joined t c) \<longleftrightarrow>
     c' = c \<and>
     (case po of
        None \<Rightarrow> \<forall>p \<in> set (tbl_client_phone t). cp_client_id p \<noteq> client_id c
      | Some p \<Rightarrow> p \<in> set (tbl_client_phone t) \<and> cp_client_id p = client_id c)"
proof (cases "filter (\<lambda>p. cp_client_id p = client_id c) (tbl_client_phone t) = []")
  case True
  then have "joined t c = [(c, None)]" by (simp add: joined_def)
  moreover from True have "\<forall>p \<in> set (tbl_client_phone t). cp_client_id p \<noteq> client_id c"
    by (simp add: filter_empty_conv)
  ultimately show ?thesis by (auto split: option.splits)
next
  case False
  then have j: "joined t c =
      map (\<lambda>p. (c, Some p)) (filter (\<lambda>p. cp_client_id p = client_id c) (tbl_client_phone t))"
    by (simp add: joined_def split: list.splits)
  from False have "\<exists>p \<in> set (tbl_client_phone t). cp_client_id p = client_id c"
    by (simp add: filter_empty_conv)
  then show ?thesis unfolding j by (auto split: option.splits)
qed

lemma in_left_join:
  "(c, po) \<in> set (left_join t) \<longleftrightarrow>
     c \<in> set (tbl_client t) \<and>
     (case po of
        None \<Rightarrow> \<forall>p \<in> set (tbl_client_phone t). cp_client_id p \<noteq> client_id c
      | Some p \<Rightarrow> p \<in> set (tbl_client_phone t) \<and> cp_client_id p = client_id c)"
  by (auto simp: left_join_joined in_joined)

lemma joined_nonempty: "joined t c \<noteq> []"
  by (simp add: joined_def split: list.splits)

lemma joined_has: "\<exists>po. (c, po) \<in> set (joined t c)"
proof -
  obtain x where x: "x \<in> set (joined t c)"
    using joined_nonempty[of t c] by (cases "joined t c") auto
  obtain c' po where "x = (c', po)" by (cases x)
  with x have "(c, po) \<in> set (joined t c)" by (simp add: in_joined)
  then show ?thesis ..
qed

lemma set_select_distinct:
  "set (select_distinct col v t) = client_columns ` {c \<in> set (tbl_client t). has_value t col v c}"
proof -
  have "c \<in> set (tbl_client t) \<and> has_value t col v c \<longleftrightarrow>
        (\<exists>po. (c, po) \<in> set (left_join t) \<and> column_value col (c, po) = Some v)" for c
  proof (cases col)
    case Col_phone
    show ?thesis unfolding Col_phone
      apply (simp add: in_left_join )
      apply (rule iffI)
       apply clarify
      subgoal for p by (rule exI[of _ "Some p"]) simp
      apply clarify
      subgoal for po by (cases po) auto
      done
  next
    case Col_first_name
    have "\<exists>po. (c, po) \<in> set (joined t c)"
      by (rule joined_has)
    then show ?thesis unfolding Col_first_name 
      by (auto simp: left_join_joined in_joined)
  next
    case Col_last_name
    have "\<exists>po. (c, po) \<in> set (joined t c)"
      by (rule joined_has)
    then show ?thesis unfolding Col_last_name 
      by (auto simp: left_join_joined in_joined)
  next
    case Col_email
    have "\<exists>po. (c, po) \<in> set (joined t c)"
      by (rule joined_has)
    then show ?thesis unfolding Col_email 
      by (auto simp: left_join_joined in_joined)
  qed
  then have "{c \<in> set (tbl_client t). has_value t col v c} =
      fst ` {j \<in> set (left_join t). column_value col j = Some v}"
    by (auto simp: image_iff)
  then show ?thesis
    by (simp add: select_distinct_def image_image)
qed

lemma distinct_ids_select_distinct:
  assumes "distinct (map client_id (tbl_client t))"
  shows "distinct (map fst (select_distinct col v t))"
proof -
  have inj: "inj_on client_id (set (tbl_client t))"
    using assms by (simp add: distinct_map)
  have "inj_on fst (set (select_distinct col v t))"
    unfolding set_select_distinct
    by (rule inj_onI) (auto simp: client_columns_def dest: inj_onD[OF inj])
  moreover have "distinct (select_distinct col v t)"
    by (simp add: select_distinct_def)
  ultimately show ?thesis by (simp add: distinct_map)
qed












lemma foldl_print:
  "foldl (\<lambda>s r. print (Listed r) s) s rows = s\<lparr>stdout := stdout s @ map Listed rows\<rparr>"
  by (induction rows arbitrary: s) (simp_all add: print_def)


subsection \<open>Every statement and every operation keeps the connection sound\<close>

lemma tables_ok_mono:
  "tables_ok t cs ps \<Longrightarrow> cs \<le> cs' \<Longrightarrow> ps \<le> ps' \<Longrightarrow> tables_ok t cs' ps'"
  by (fastforce simp: tables_ok_def)

lemma sound_print: "sound s \<Longrightarrow> sound (print l s)"
  by (simp add: sound_def print_def)

lemma sound_commit: "sound s \<Longrightarrow> sound (commit s)"
  by (simp add: sound_def commit_def split: txn_status.splits)

lemma sound_rollback: "sound s \<Longrightarrow> sound (rollback s)"
  by (simp add: sound_def rollback_def split: txn_status.splits)

lemma sound_execute:
  assumes "keeps_sound stmt" and "sound s"
  shows "sound (snd (execute stmt s))"
proof (cases "txn s = InError")
  case True
  with assms(2) show ?thesis by (simp add: execute_def)
next
  case False
  let ?s0 = "s\<lparr>txn := InTrans\<rparr>"
  let ?s1 = "snd (stmt ?s0)"
  have w: "tables_ok (work ?s0) (client_id_seq ?s0) (client_phone_id_seq ?s0)"
    using assms(2) by (simp add: sound_def)
  have k: "tables_ok (work ?s1) (client_id_seq ?s1) (client_phone_id_seq ?s1)"
      "committed ?s1 = committed s" "txn ?s1 = InTrans"
      "client_id_seq s \<le> client_id_seq ?s1" "client_phone_id_seq s \<le> client_phone_id_seq ?s1"
    using assms(1) w unfolding keeps_sound_def Let_def by fastforce+
  have c: "tables_ok (committed ?s1) (client_id_seq ?s1) (client_phone_id_seq ?s1)"
    using assms(2) k(2,4,5) by (auto simp: sound_def intro: tables_ok_mono)
  have "sound ?s1" "sound (?s1\<lparr>txn := InError\<rparr>)"
    using k c by (simp_all add: sound_def)
  then show ?thesis
    using False by (cases "stmt ?s0") (auto simp: execute_def split: sum.splits)
qed

lemma keeps_sound_insert_client: "keeps_sound (sql_insert_client fn ln em)"
  unfolding keeps_sound_def sql_insert_client_def Let_def
  by (auto simp: tables_ok_def refs_ok_def nextval_def split: sum.splits if_splits)

lemma keeps_sound_insert_client_phone: "keeps_sound (sql_insert_client_phone cid ph)"
  unfolding keeps_sound_def sql_insert_client_phone_def Let_def
  by (auto simp: tables_ok_def refs_ok_def nextval_def split: sum.splits if_splits)

lemma tables_ok_update:
  assumes "tables_ok t cs ps"
  shows "tables_ok
     (t\<lparr>tbl_client := map (\<lambda>c. if client_id c = cid
                                then c\<lparr>first_name := fn, last_name := ln, email := em\<rparr> else c)
                           (tbl_client t)\<rparr>) cs ps"
proof -
  let ?g = "\<lambda>c. if client_id c = cid
                 then c\<lparr>first_name := fn, last_name := ln, email := em\<rparr> else c"
  have a: "map client_id (map ?g xs) = map client_id xs" for xs
    by (induction xs) auto
  have b: "client_id ` set (map ?g xs) = client_id ` set xs" for xs
    using a [of xs] by (metis list.set_map)
  have c: "\<forall>c \<in> set (map ?g (tbl_client t)). client_id c \<le> cs"
    using assms by (auto simp: tables_ok_def)
  show ?thesis
    using assms c unfolding tables_ok_def refs_ok_def
    by (simp add: a b del: set_map map_map)
qed

lemma keeps_sound_update_client: "keeps_sound (sql_update_client cid fn ln em)"
  unfolding keeps_sound_def sql_update_client_def Let_def
  by (auto intro: tables_ok_update split: sum.splits)

lemma keeps_sound_delete_phone: "keeps_sound (sql_delete_phone pid)"
  unfolding keeps_sound_def sql_delete_phone_def Let_def
  by (auto simp: tables_ok_def refs_ok_def distinct_map_filter)

lemma keeps_sound_delete_phones_of: "keeps_sound (sql_delete_phones_of cid)"
  unfolding keeps_sound_def sql_delete_phones_of_def Let_def
  by (auto simp: tables_ok_def refs_ok_def distinct_map_filter)

lemma keeps_sound_delete_client: "keeps_sound (sql_delete_client cid)"
  unfolding keeps_sound_def sql_delete_client_def Let_def
  by (auto simp: tables_ok_def refs_ok_def distinct_map_filter list_ex_iff) force

lemma keeps_sound_select_distinct: "keeps_sound (sql_select_distinct col v)"
  by (simp add: keeps_sound_def sql_select_distinct_def)

lemma keeps_sound_select_grouped: "keeps_sound (sql_select_grouped pl)"
  by (simp add: keeps_sound_def sql_select_grouped_def)


lemma sound_connect: "sound connect"
  by (simp add: sound_def tables_ok_def refs_ok_def connect_def)

lemma sound_insert_client_phone:
  assumes "sound s"
  shows "sound (snd (insert_client_phone cid ph s))"
proof -
  have "sound (snd (execute (sql_insert_client_phone cid ph) s))"
    using keeps_sound_insert_client_phone assms by (rule sound_execute)
  moreover obtain r s1 where x: "execute (sql_insert_client_phone cid ph) s = (r, s1)"
    by force
  ultimately have "sound s1" by simp
  then show ?thesis
    by (cases r) (simp_all add: insert_client_phone_def x sound_rollback sound_print
        split: exn.splits)
qed

lemma sound_insert_phones: "sound s \<Longrightarrow> sound (snd (insert_phones cid phs s))"
proof (induction phs arbitrary: s)
  case Nil
  then show ?case by simp
next
  case (Cons ph phs)
  have "sound (snd (insert_client_phone cid ph s))"
    using Cons.prems by (rule sound_insert_client_phone)
  moreover obtain r s1 where x: "insert_client_phone cid ph s = (r, s1)"
    by force
  ultimately have "sound s1" by simp
  then show ?case
    using Cons.IH [of s1] by (cases r) (simp_all add: x)
qed

lemma sound_add_client:
  assumes "sound s"
  shows "sound (snd (add_client fn ln em pl s))"
proof -
  have e: "sound (snd (execute (sql_insert_client fn ln em) s))"
    using keeps_sound_insert_client assms by (rule sound_execute)
  obtain r s1 where x: "execute (sql_insert_client fn ln em) s = (r, s1)"
    by force
  with e have s1: "sound s1" by simp
  show ?thesis
  proof (cases r)
    case (Inl e)
    with s1 show ?thesis
      by (simp add: add_client_def x sound_rollback sound_print split: exn.splits)
  next
    case (Inr new_client_id)
    have s2: "sound (commit s1)"
      using s1 by (rule sound_commit)
    show ?thesis
    proof (cases pl)
      case (Phones phs)
      obtain r3 s3 where y: "insert_phones new_client_id phs (commit s1) = (r3, s3)"
        by force
      with sound_insert_phones [OF s2, of new_client_id phs] have "sound s3" by simp
      then show ?thesis
        using Inr Phones by (cases r3) (simp_all add: add_client_def x y sound_commit)
    qed (simp_all add: add_client_def x Inr s2)
  qed
qed

lemma sound_add_client_phone:
  assumes "sound s"
  shows "sound (snd (add_client_phone cid ph s))"
proof -
  obtain r s1 where x: "insert_client_phone cid ph s = (r, s1)"
    by force
  with sound_insert_client_phone [OF assms, of cid ph] have "sound s1" by simp
  then show ?thesis
    by (cases r) (simp_all add: add_client_phone_def x sound_commit)
qed

lemma sound_update_client:
  assumes "sound s"
  shows "sound (snd (update_client cid fn ln em s))"
proof -
  obtain r s1 where x: "execute (sql_update_client cid fn ln em) s = (r, s1)"
    by force
  with sound_execute [OF keeps_sound_update_client assms, of cid fn ln em] have "sound s1"
    by simp
  then show ?thesis
    by (cases r) (simp_all add: update_client_def x sound_commit)
qed

lemma sound_del_client_phone:
  assumes "sound s"
  shows "sound (snd (del_client_phone pid s))"
proof -
  obtain r s1 where x: "execute (sql_delete_phone pid) s = (r, s1)"
    by force
  with sound_execute [OF keeps_sound_delete_phone assms, of pid] have "sound s1"
    by simp
  then show ?thesis
    by (cases r) (simp_all add: del_client_phone_def x sound_commit)
qed

lemma sound_del_client:
  assumes "sound s"
  shows "sound (snd (del_client cid s))"
proof -
  obtain r s1 where x: "execute (sql_delete_phones_of cid) s = (r, s1)"
    by force
  with sound_execute [OF keeps_sound_delete_phones_of assms, of cid] have s1: "sound s1"
    by simp
  obtain r2 s2 where y: "execute (sql_delete_client cid) s1 = (r2, s2)"
    by force
  with sound_execute [OF keeps_sound_delete_client s1, of cid] have s2: "sound s2"
    by simp
  show ?thesis
  proof (cases r)
    case (Inl e)
    with s1 show ?thesis by (simp add: del_client_def x)
  next
    case (Inr u)
    with s2 show ?thesis
      by (cases r2) (simp_all add: del_client_def x y sound_commit)
  qed
qed

lemma sound_find_client:
  assumes "sound s"
  shows "sound (snd (find_client f v s))"
proof (cases "map_of fields_to_search (lower f)")
  case None
  then show ?thesis
    using assms by (simp add: find_client_def sound_print)
next
  case (Some col)
  obtain r s1 where x: "execute (sql_select_distinct col v) s = (r, s1)"
    by force
  with sound_execute [OF keeps_sound_select_distinct assms, of col v] have "sound s1"
    by simp
  then show ?thesis
    using Some by (cases r) (simp_all add: find_client_def x)
qed

lemma sound_prints: "sound s \<Longrightarrow> sound (foldl (\<lambda>s r. print (Listed r) s) s rows)"
  by (simp add: foldl_print sound_def)

lemma sound_print_all_clients:
  assumes "sound s"
  shows "sound (snd (print_all_clients pl s))"
proof -
  obtain r s1 where x: "execute (sql_select_grouped pl) s = (r, s1)"
    by force
  with sound_execute [OF keeps_sound_select_grouped [of pl] assms] have "sound s1"
    by simp
  then show ?thesis
    by (cases r) (simp_all add: print_all_clients_def x sound_prints)
qed

section \<open>Adding a client\<close>

text \<open>
  Claim C3, as amended. When the email of \<open>add_client\<close> fails the format check, and
  the two names and the email are no longer than the 100 characters of their columns,
  the insert is rolled back, no client row is created, the failure is reported by the
  printed message and not by an exception, and the caller gets no identifier (\<open>None\<close>).
  The tables the connection sees afterwards are the committed ones, which the call
  leaves as they were; only the sequence has moved on. The connection is not in an
  aborted transaction and the sequence has a value left.
\<close>

theorem add_client_bad_email:
  assumes "txn s \<noteq> InError" and "\<not> email_ok em"
    and "client_fits fn ln em" and "client_id_seq s < 2147483647"
  shows "add_client fn ln em pl s =
     (Inr None,
      s\<lparr>work := committed s, txn := Idle, client_id_seq := client_id_seq s + 1,
        history := history s @ [RolledBack], stdout := stdout s @ [Incorrect_email]\<rparr>)"
  using assms
  by (simp add: add_client_def execute_def sql_insert_client_fits Let_def rollback_def print_def)

theorem add_client_bad_email_witness:
  "txn sample \<noteq> InError \<and> \<not> email_ok (Some (ascii ''not-an-email'')) \<and>
   client_fits (ascii ''Eve'') (ascii ''Poe'') (Some (ascii ''not-an-email'')) \<and>
   client_id_seq sample < 2147483647 \<and>
   add_client (ascii ''Eve'') (ascii ''Poe'') (Some (ascii ''not-an-email''))
       (Phones [ascii ''555-1234'']) sample =
     (Inr None,
      sample\<lparr>client_id_seq := 3, history := [RolledBack], stdout := [Incorrect_email]\<rparr>)"
proof -
  have a: "txn sample \<noteq> InError"
    by (simp add: sample_def)
  have b: "\<not> email_ok (Some (ascii ''not-an-email''))"
    by (simp add: run_defs)
  have c: "client_fits (ascii ''Eve'') (ascii ''Poe'') (Some (ascii ''not-an-email''))"
    by (simp add: client_fits_def ascii_def)
  have d: "client_id_seq sample < 2147483647"
    by (simp add: sample_def)
  show ?thesis
    using a b c d
      add_client_bad_email [OF a b c d, of "Phones [ascii ''555-1234'']"]
    by (simp add: sample_def)
qed

text \<open>
  Claim C3 as the specification words it, for every email that fails the format check:
  an email of 101 exclamation marks fails it, and the call ends in the exception
  \<open>StringDataRightTruncation\<close>, which \<open>add_client\<close> does not catch. Nothing is printed,
  nothing is rolled back and the transaction is left aborted; the width of the column
  is looked at before the sequence and before the check.
\<close>

theorem add_client_bad_email_too_long_counterexample:
  "\<not> email_ok (Some (replicate 101 33)) \<and>
   add_client (ascii ''A'') (ascii ''B'') (Some (replicate 101 33)) No_list connect =
     (Inl StringDataRightTruncation, connect\<lparr>txn := InError\<rparr>)"
proof
  show "\<not> email_ok (Some (replicate 101 33))"
    by (simp add: email_ok_def email_regexp_def some_def chr_def numeral_nat)
  show "add_client (ascii ''A'') (ascii ''B'') (Some (replicate 101 33)) No_list connect =
      (Inl StringDataRightTruncation, connect\<lparr>txn := InError\<rparr>)"
    by (simp add: run_defs list_all_iff)
qed

text \<open>
  Claim C1, as amended. With the client row accepted and every phone of the list no
  longer than the 50 characters of its column, a phone that fails the format check is
  not stored and does not end the call: the client row stays and its identifier is
  returned. But \<open>conn.rollback()\<close> ends the whole open transaction, so the phones of
  the same call accepted before the rejected one go with it. What is stored is the run
  of accepted phones after the last rejected one; one message is printed for each
  rejected phone. The connection is not in an aborted transaction, and the sequences
  are ahead of the keys in use and have a value left for the client and for each phone.
\<close>

theorem add_client_keeps_phones_after_last_rejected:
  assumes "txn s \<noteq> InError" and "email_ok em" and "seqs_ahead s"
    and "client_fits fn ln em" and "seq_room (client_id_seq s) 1" and "phones_fit s phs"
  shows "fst (add_client fn ln em (Phones phs) s) = Inr (Some (client_id_seq s + 1)) \<and>
     committed (snd (add_client fn ln em (Phones phs) s)) =
       \<lparr>tbl_client = tbl_client (work s) @ [inserted_client s fn ln em],
        tbl_client_phone = tbl_client_phone (work s) @
          kept_phones (client_id_seq s + 1) (client_phone_id_seq s) phs\<rparr> \<and>
     map phone (kept_phones (client_id_seq s + 1) (client_phone_id_seq s) phs) =
       rev (takeWhile phone_ok (rev phs)) \<and>
     stdout (snd (add_client fn ln em (Phones phs) s)) =
       stdout s @ replicate (rejected phs) Incorrect_phone"
proof -
  have c: "\<forall>c \<in> set (tbl_client (work s)). client_id c \<le> client_id_seq s"
    and p: "\<forall>p \<in> set (tbl_client_phone (work s)). client_phone_id p \<le> client_phone_id_seq s"
    using assms(3) by (simp_all add: seqs_ahead_def)
  have w: "\<forall>ph \<in> set phs. length ph \<le> 50"
    and r: "seq_room (client_phone_id_seq s) (length phs)"
    using assms(6) by (simp_all add: phones_fit_def list_all_iff)
  show ?thesis
    unfolding add_client_with_phones [OF assms(1,2) c p assms(4,5) w r] by (simp add: kept_suffix)
qed

theorem add_client_keeps_phones_after_last_rejected_witness:
  "txn sample \<noteq> InError \<and> email_ok None \<and> seqs_ahead sample \<and>
   client_fits (ascii ''Eve'') (ascii ''Poe'') None \<and> seq_room (client_id_seq sample) 1 \<and>
   phones_fit sample [ascii ''555-1234'', ascii ''bad phone!!'', ascii ''555-9999''] \<and>
   fst (add_client (ascii ''Eve'') (ascii ''Poe'') None
          (Phones [ascii ''555-1234'', ascii ''bad phone!!'', ascii ''555-9999'']) sample) =
     Inr (Some 3) \<and>
   tbl_client_phone (committed (snd (add_client (ascii ''Eve'') (ascii ''Poe'') None
          (Phones [ascii ''555-1234'', ascii ''bad phone!!'', ascii ''555-9999'']) sample))) =
     tbl_client_phone sample_tables @
       [\<lparr>client_phone_id = 7, cp_client_id = 3, phone = ascii ''555-9999''\<rparr>]"
proof -
  have a: "txn sample \<noteq> InError"
    by (simp add: sample_def)
  have b: "email_ok None"
    by (simp add: email_ok_def)
  have c: "seqs_ahead sample"
    by (simp add: seqs_ahead_def sample_def sample_tables_def)
  have d: "client_fits (ascii ''Eve'') (ascii ''Poe'') None"
    by (simp add: client_fits_def ascii_def)
  have e: "seq_room (client_id_seq sample) 1"
    by (simp add: seq_room_def sample_def)
  have f: "phones_fit sample [ascii ''555-1234'', ascii ''bad phone!!'', ascii ''555-9999'']"
    by (simp add: phones_fit_def seq_room_def sample_def ascii_def)
  have ok: "phone_ok (ascii ''555-1234'')" "\<not> phone_ok (ascii ''bad phone!!'')"
      "phone_ok (ascii ''555-9999'')"
    by (simp_all add: phone_ok_def phone_regexp_def opt_def one_to_four_def chr_def ascii_def)
  have s: "client_id_seq sample = 2" "client_phone_id_seq sample = 4" "work sample = sample_tables"
    by (simp_all add: sample_def)
  show ?thesis
    using a b c d e f
      add_client_keeps_phones_after_last_rejected [OF a b c d e f]
    by (simp add: s ok)
qed

text \<open>
  Claim C1 as the specification words it, with its own example: the client is created,
  \<open>555-1234\<close> passes the check and is inserted, \<open>bad phone!!\<close> is rejected; after the
  call the client has no phone at all, where the claim keeps \<open>555-1234\<close>.
\<close>

theorem add_client_earlier_phone_lost_counterexample:
  "phone_ok (ascii ''555-1234'') \<and> \<not> phone_ok (ascii ''bad phone!!'') \<and>
   fst (add_client (ascii ''A'') (ascii ''B'') None
          (Phones [ascii ''555-1234'', ascii ''bad phone!!'']) connect) = Inr (Some 1) \<and>
   tbl_client (committed (snd (add_client (ascii ''A'') (ascii ''B'') None
          (Phones [ascii ''555-1234'', ascii ''bad phone!!'']) connect))) =
     [\<lparr>client_id = 1, first_name = ascii ''A'', last_name = ascii ''B'', email = None\<rparr>] \<and>
   tbl_client_phone (committed (snd (add_client (ascii ''A'') (ascii ''B'') None
          (Phones [ascii ''555-1234'', ascii ''bad phone!!'']) connect))) = []"
  by (simp add: run_defs)

text \<open>
  Claim C5, as amended. When the client row is accepted and the phones are no longer
  than the 50 characters of their column, \<open>add_client\<close> commits the client row by
  itself, before the phones are looked at. With a phone list, every rejected phone
  then rolls the open transaction back, and a second commit follows the loop when the
  last phone was accepted; it holds the phones kept. Without a list the first commit
  is the only one. The connection is not in an aborted transaction, and the sequences
  are ahead of the keys in use and have a value left for the client and for each phone.
\<close>

theorem add_client_commits_client_first:
  assumes "txn s \<noteq> InError" and "email_ok em" and "seqs_ahead s"
    and "client_fits fn ln em" and "seq_room (client_id_seq s) 1"
    and "case pl of Phones phs \<Rightarrow> phones_fit s phs | _ \<Rightarrow> True"
  shows "history (snd (add_client fn ln em pl s)) =
     history s @
     Committed \<lparr>tbl_client = tbl_client (work s) @ [inserted_client s fn ln em],
                tbl_client_phone = tbl_client_phone (work s)\<rparr> #
     (case pl of
        Phones phs \<Rightarrow>
          replicate (rejected phs) RolledBack @
          (if phs \<noteq> [] \<and> phone_ok (last phs)
           then [Committed
                  \<lparr>tbl_client = tbl_client (work s) @ [inserted_client s fn ln em],
                   tbl_client_phone = tbl_client_phone (work s) @
                     kept_phones (client_id_seq s + 1) (client_phone_id_seq s) phs\<rparr>]
           else [])
      | _ \<Rightarrow> [])"
proof -
  have c: "\<forall>c \<in> set (tbl_client (work s)). client_id c \<le> client_id_seq s"
    and p: "\<forall>p \<in> set (tbl_client_phone (work s)). client_phone_id p \<le> client_phone_id_seq s"
    using assms(3) by (simp_all add: seqs_ahead_def)
  have m: "client_id_seq s < 2147483647"
    using assms(5) by (simp add: seq_room_def)
  have t: "(work s)\<lparr>tbl_client := tbl_client (work s) @ [inserted_client s fn ln em]\<rparr> =
      \<lparr>tbl_client = tbl_client (work s) @ [inserted_client s fn ln em],
       tbl_client_phone = tbl_client_phone (work s)\<rparr>"
    by simp
  show ?thesis
  proof (cases pl)
    case No_list
    then show ?thesis
      by (simp add: add_client_without_phones [OF assms(1,2) c _ assms(4) m] t)
  next
    case (Phones phs)
    with assms(6) have w: "\<forall>ph \<in> set phs. length ph \<le> 50"
      and r: "seq_room (client_phone_id_seq s) (length phs)"
      by (simp_all add: phones_fit_def list_all_iff)
    from Phones show ?thesis
      by (simp add: add_client_with_phones [OF assms(1,2) c p assms(4,5) w r])
  next
    case Not_iterable
    then show ?thesis
      by (simp add: add_client_without_phones [OF assms(1,2) c _ assms(4) m] t)
  qed
qed

theorem add_client_commits_client_first_witness:
  "txn sample \<noteq> InError \<and> email_ok None \<and> seqs_ahead sample \<and>
   client_fits (ascii ''Eve'') (ascii ''Poe'') None \<and> seq_room (client_id_seq sample) 1 \<and>
   phones_fit sample [ascii ''bad phone!!'', ascii ''555-9999''] \<and>
   history (snd (add_client (ascii ''Eve'') (ascii ''Poe'') None
          (Phones [ascii ''bad phone!!'', ascii ''555-9999'']) sample)) =
     [Committed \<lparr>tbl_client = tbl_client sample_tables @
                    [\<lparr>client_id = 3, first_name = ascii ''Eve'', last_name = ascii ''Poe'',
                      email = None\<rparr>],
                 tbl_client_phone = tbl_client_phone sample_tables\<rparr>,
      RolledBack,
      Committed \<lparr>tbl_client = tbl_client sample_tables @
                    [\<lparr>client_id = 3, first_name = ascii ''Eve'', last_name = ascii ''Poe'',
                      email = None\<rparr>],
                 tbl_client_phone = tbl_client_phone sample_tables @
                    [\<lparr>client_phone_id = 6, cp_client_id = 3, phone = ascii ''555-9999''\<rparr>]\<rparr>]"
proof -
  have a: "txn sample \<noteq> InError"
    by (simp add: sample_def)
  have b: "email_ok None"
    by (simp add: email_ok_def)
  have c: "seqs_ahead sample"
    by (simp add: seqs_ahead_def sample_def sample_tables_def)
  have d: "client_fits (ascii ''Eve'') (ascii ''Poe'') None"
    by (simp add: client_fits_def ascii_def)
  have e: "seq_room (client_id_seq sample) 1"
    by (simp add: seq_room_def sample_def)
  have f: "phones_fit sample [ascii ''bad phone!!'', ascii ''555-9999'']"
    by (simp add: phones_fit_def seq_room_def sample_def ascii_def)
  have f': "case Phones [ascii ''bad phone!!'', ascii ''555-9999''] of
      Phones phs \<Rightarrow> phones_fit sample phs | _ \<Rightarrow> True"
    using f by simp
  have ok: "\<not> phone_ok (ascii ''bad phone!!'')" "phone_ok (ascii ''555-9999'')"
    by (simp_all add: phone_ok_def phone_regexp_def opt_def one_to_four_def chr_def ascii_def)
  have s: "client_id_seq sample = 2" "client_phone_id_seq sample = 4" "work sample = sample_tables"
      "history sample = []"
    by (simp_all add: sample_def)
  show ?thesis
    using a b c d e f
      add_client_commits_client_first [OF a b c d e f']
    by (simp add: s ok rejected_def inserted_client_def)
qed

text \<open>
  Claim C5 as the specification words it (one commit, at the end of the phones, holding
  the client row and the phones together): with one accepted phone the connection
  commits twice, and the first commit holds the client row without the phone.
\<close>

theorem add_client_two_commits_counterexample:
  "history (snd (add_client (ascii ''A'') (ascii ''B'') None
          (Phones [ascii ''555-1234'']) connect)) =
     [Committed
        \<lparr>tbl_client =
           [\<lparr>client_id = 1, first_name = ascii ''A'', last_name = ascii ''B'', email = None\<rparr>],
         tbl_client_phone = []\<rparr>,
      Committed
        \<lparr>tbl_client =
           [\<lparr>client_id = 1, first_name = ascii ''A'', last_name = ascii ''B'', email = None\<rparr>],
         tbl_client_phone =
           [\<lparr>client_phone_id = 1, cp_client_id = 1, phone = ascii ''555-1234''\<rparr>]\<rparr>]"
  by (simp add: run_defs)




section \<open>Searching and listing\<close>

text \<open>
  Claim C2, as amended. \<open>find_client\<close> lower-cases the field name and looks it up in
  \<open>fields_to_search\<close>. The four names it takes are the Russian words for "name",
  "surname" and "phone", and \<open>email\<close>; they stand for the columns \<open>first_name\<close>,
  \<open>last_name\<close>, \<open>phone\<close> and \<open>email\<close>. Any other name, the English words "name",
  "surname" and "phone" among them, is turned down.
\<close>

theorem find_client_four_keys:
  assumes "txn s \<noteq> InError"
  shows "find_client f v s =
     (if lower f = key_name
        then (Inr (Some (select_distinct Col_first_name v (work s))), s\<lparr>txn := InTrans\<rparr>)
      else if lower f = key_surname
        then (Inr (Some (select_distinct Col_last_name v (work s))), s\<lparr>txn := InTrans\<rparr>)
      else if lower f = key_email
        then (Inr (Some (select_distinct Col_email v (work s))), s\<lparr>txn := InTrans\<rparr>)
      else if lower f = key_phone
        then (Inr (Some (select_distinct Col_phone v (work s))), s\<lparr>txn := InTrans\<rparr>)
      else (Inr None, s\<lparr>stdout := stdout s @ [Unknown_field]\<rparr>))"
  using assms
  by (simp add: find_client_def fields_to_search_def execute_def sql_select_distinct_def print_def)

text \<open>The surname key in capitals (U+0424 U+0410 U+041C U+0418 U+041B U+0418 U+042F).\<close>

theorem find_client_four_keys_witness:
  "txn sample \<noteq> InError \<and>
   find_client [1060, 1040, 1052, 1048, 1051, 1048, 1071] (ascii ''Lee'') sample =
     (Inr (Some [(1, ascii ''Ann'', ascii ''Lee'', Some (ascii ''ann@lee.org''))]),
      sample\<lparr>txn := InTrans\<rparr>)"
proof -
  have a: "txn sample \<noteq> InError"
    by (simp add: sample_def)
  have k: "lower [1060, 1040, 1052, 1048, 1051, 1048, 1071] = key_surname"
      "key_surname \<noteq> key_name"
    by (simp_all add: lower_def lower_cp_def key_surname_def key_name_def)
  have r: "select_distinct Col_last_name (ascii ''Lee'') (work sample) =
      [(1, ascii ''Ann'', ascii ''Lee'', Some (ascii ''ann@lee.org''))]"
    by (simp add: select_distinct_def left_join_def joined_def client_columns_def
        sample_def sample_tables_def ascii_def)
  show ?thesis
    using a
      find_client_four_keys [OF a, of "[1060, 1040, 1052, 1048, 1051, 1048, 1071]" "ascii ''Lee''"]
    by (simp add: k r)
qed

text \<open>
  Claim C2 as the specification words it: the names "name", "surname" and "phone" are
  not taken, although a client with that name, surname and phone is there, as the search
  under the Russian key shows.
\<close>

theorem find_client_english_names_counterexample:
  "fst (find_client (ascii ''name'') (ascii ''Ann'') sample) = Inr None \<and>
   fst (find_client (ascii ''surname'') (ascii ''Lee'') sample) = Inr None \<and>
   fst (find_client (ascii ''phone'') (ascii ''555-1234'') sample) = Inr None \<and>
   fst (find_client key_name (ascii ''Ann'') sample) =
     Inr (Some [(1, ascii ''Ann'', ascii ''Lee'', Some (ascii ''ann@lee.org''))])"
  by (simp add: run_defs)

text \<open>
  Claim C4. A field name that, lower-cased, is no key of \<open>fields_to_search\<close> is turned
  down: the message is printed, no query is run and no rows are returned (\<open>None\<close>),
  whatever the state of the connection.
\<close>

theorem find_client_unknown_field:
  assumes "lower f \<notin> fst ` set fields_to_search"
  shows "find_client f v s = (Inr None, s\<lparr>stdout := stdout s @ [Unknown_field]\<rparr>)"
proof -
  from assms have "map_of fields_to_search (lower f) = None"
    by (simp add: map_of_eq_None_iff)
  then show ?thesis
    by (simp add: find_client_def print_def)
qed

theorem find_client_unknown_field_witness:
  "lower (ascii ''unknown_field'') \<notin> fst ` set fields_to_search \<and>
   find_client (ascii ''unknown_field'') (ascii ''x'') sample =
     (Inr None, sample\<lparr>stdout := [Unknown_field]\<rparr>)"
proof -
  have a: "lower (ascii ''unknown_field'') \<notin> fst ` set fields_to_search"
    by (simp add: fields_to_search_def key_name_def key_surname_def key_email_def key_phone_def
        lower_def lower_cp_def ascii_def)
  show ?thesis
    using a find_client_unknown_field [OF a, of "ascii ''x''" sample]
    by (simp add: sample_def)
qed

text \<open>
  Claim C9. For a field name that is taken, \<open>find_client\<close> returns the rows of the
  clients that have the value in the column: in their own row or, for the phone, in one
  of their phones. The comparison is equality, and no client is returned twice.
\<close>

theorem find_client_rows:
  assumes "txn s \<noteq> InError"
    and "distinct (map client_id (tbl_client (work s)))"
    and "(lower f, col) \<in> set fields_to_search"
  shows "fst (find_client f v s) = Inr (Some (select_distinct col v (work s))) \<and>
     distinct (map fst (select_distinct col v (work s))) \<and>
     set (select_distinct col v (work s)) =
       client_columns ` {c \<in> set (tbl_client (work s)). has_value (work s) col v c}"
proof -
  have "distinct (map fst fields_to_search)"
    by (simp add: fields_to_search_def key_name_def key_surname_def key_email_def key_phone_def
        ascii_def)
  then have "map_of fields_to_search (lower f) = Some col"
    using assms(3) by (rule map_of_is_SomeI)
  then show ?thesis
    by (simp add: find_client_known [OF assms(1)] distinct_ids_select_distinct [OF assms(2)]
        set_select_distinct)
qed

theorem find_client_rows_witness:
  "txn sample \<noteq> InError \<and> distinct (map client_id (tbl_client (work sample))) \<and>
   (lower key_phone, Col_phone) \<in> set fields_to_search \<and>
   fst (find_client key_phone (ascii ''555-1234'') sample) =
     Inr (Some [(1, ascii ''Ann'', ascii ''Lee'', Some (ascii ''ann@lee.org''))]) \<and>
   set [(1, ascii ''Ann'', ascii ''Lee'', Some (ascii ''ann@lee.org''))] =
     client_columns ` {c \<in> set (tbl_client (work sample)).
                        has_value (work sample) Col_phone (ascii ''555-1234'') c}"
proof -
  have a: "txn sample \<noteq> InError"
    by (simp add: sample_def)
  have b: "distinct (map client_id (tbl_client (work sample)))"
    by (simp add: sample_def sample_tables_def)
  have c: "(lower key_phone, Col_phone) \<in> set fields_to_search"
    by (simp add: fields_to_search_def key_phone_def lower_def lower_cp_def)
  have r: "select_distinct Col_phone (ascii ''555-1234'') (work sample) =
      [(1, ascii ''Ann'', ascii ''Lee'', Some (ascii ''ann@lee.org''))]"
    by (simp add: select_distinct_def left_join_def joined_def client_columns_def
        sample_def sample_tables_def ascii_def)
  show ?thesis
    using a b c find_client_rows [OF a b c, of "ascii ''555-1234''"]
    unfolding r by simp
qed



section \<open>Deleting and updating a client\<close>

text \<open>
  Claim C7. \<open>del_client\<close> deletes the phones of the client and then the client, and
  commits the two deletions together, in one commit. Afterwards the identifier is
  neither in the client table nor among the owners in the phone table, every other row
  is as before, and if every phone had a client before, every phone has one after.
\<close>

theorem del_client_cascade:
  assumes "txn s \<noteq> InError"
  shows "del_client cid s =
     (Inr (),
      s\<lparr>committed := without_client cid (work s), work := without_client cid (work s),
        txn := Idle, history := history s @ [Committed (without_client cid (work s))]\<rparr>) \<and>
     cid \<notin> client_id ` set (tbl_client (without_client cid (work s))) \<and>
     cid \<notin> cp_client_id ` set (tbl_client_phone (without_client cid (work s))) \<and>
     (refs_ok (work s) \<longrightarrow> refs_ok (without_client cid (work s)))"
proof -
  have "cid \<notin> client_id ` set (tbl_client (without_client cid (work s)))"
    and "cid \<notin> cp_client_id ` set (tbl_client_phone (without_client cid (work s)))"
    by (auto simp: without_client_def)
  then show ?thesis
    by (simp add: del_client_result [OF assms] refs_ok_without)
qed

theorem del_client_cascade_witness:
  "txn sample \<noteq> InError \<and> refs_ok (work sample) \<and>
   del_client 1 sample =
     (Inr (),
      sample\<lparr>committed :=
               \<lparr>tbl_client =
                  [\<lparr>client_id = 2, first_name = ascii ''Bob'', last_name = ascii ''Ray'',
                    email = None\<rparr>],
                tbl_client_phone = []\<rparr>,
             work :=
               \<lparr>tbl_client =
                  [\<lparr>client_id = 2, first_name = ascii ''Bob'', last_name = ascii ''Ray'',
                    email = None\<rparr>],
                tbl_client_phone = []\<rparr>,
             history :=
               [Committed
                  \<lparr>tbl_client =
                     [\<lparr>client_id = 2, first_name = ascii ''Bob'', last_name = ascii ''Ray'',
                       email = None\<rparr>],
                   tbl_client_phone = []\<rparr>]\<rparr>) \<and>
   refs_ok \<lparr>tbl_client =
              [\<lparr>client_id = 2, first_name = ascii ''Bob'', last_name = ascii ''Ray'',
                email = None\<rparr>],
            tbl_client_phone = []\<rparr>"
proof -
  have a: "txn sample \<noteq> InError"
    by (simp add: sample_def)
  have b: "refs_ok (work sample)"
    by (simp add: refs_ok_def sample_def sample_tables_def)
  have w: "without_client 1 (work sample) =
      \<lparr>tbl_client =
         [\<lparr>client_id = 2, first_name = ascii ''Bob'', last_name = ascii ''Ray'', email = None\<rparr>],
       tbl_client_phone = []\<rparr>"
    by (simp add: without_client_def sample_def sample_tables_def)
  show ?thesis
    using a b del_client_cascade [OF a, of 1]
    unfolding w by (simp add: sample_def)
qed

text \<open>
  Claim C8, as amended. With the two names and the email no longer than the 100
  characters of their columns, on a connection that is not in an aborted transaction:
  \<open>update_client\<close> on an identifier that no client has
  changes no row and raises nothing; on the identifier of a client it replaces the two
  names and the email by the values given when the new email passes the format check
  (or is absent).
\<close>

theorem update_client_replaces_or_rejects:
  assumes "txn s \<noteq> InError" and "client_fits fn ln em"
  shows "(cid \<notin> client_id ` set (tbl_client (work s)) \<longrightarrow>
       update_client cid fn ln em s =
         (Inr (), s\<lparr>committed := work s, txn := Idle,
                    history := history s @ [Committed (work s)]\<rparr>)) \<and>
     (cid \<in> client_id ` set (tbl_client (work s)) \<and> email_ok em \<longrightarrow>
       update_client cid fn ln em s =
         (Inr (),
          s\<lparr>committed := with_client_fields cid fn ln em (work s),
            work := with_client_fields cid fn ln em (work s),
            txn := Idle,
            history := history s @ [Committed (with_client_fields cid fn ln em (work s))]\<rparr>))"
proof (intro conjI impI)
  assume "cid \<notin> client_id ` set (tbl_client (work s))"
  then show "update_client cid fn ln em s =
      (Inr (), s\<lparr>committed := work s, txn := Idle, history := history s @ [Committed (work s)]\<rparr>)"
    using update_client_ok [OF assms(1) _ assms(2), of cid]
    by (simp add: with_client_fields_absent)
next
  assume "cid \<in> client_id ` set (tbl_client (work s)) \<and> email_ok em"
  then show "update_client cid fn ln em s =
      (Inr (),
       s\<lparr>committed := with_client_fields cid fn ln em (work s),
         work := with_client_fields cid fn ln em (work s),
         txn := Idle,
         history := history s @ [Committed (with_client_fields cid fn ln em (work s))]\<rparr>)"
    using update_client_ok [OF assms(1) _ assms(2), of cid] by simp
qed

theorem update_client_replaces_or_rejects_witness:
  "txn sample \<noteq> InError \<and>
   client_fits (ascii ''Rob'') (ascii ''Roy'') (Some (ascii ''bob@ray.net'')) \<and>
   2 \<in> client_id ` set (tbl_client (work sample)) \<and> email_ok (Some (ascii ''bob@ray.net'')) \<and>
   99 \<notin> client_id ` set (tbl_client (work sample)) \<and>
   fst (update_client 2 (ascii ''Rob'') (ascii ''Roy'') (Some (ascii ''bob@ray.net'')) sample) = Inr () \<and>
   tbl_client (committed
       (snd (update_client 2 (ascii ''Rob'') (ascii ''Roy'') (Some (ascii ''bob@ray.net'')) sample))) =
     [\<lparr>client_id = 1, first_name = ascii ''Ann'', last_name = ascii ''Lee'',
       email = Some (ascii ''ann@lee.org'')\<rparr>,
      \<lparr>client_id = 2, first_name = ascii ''Rob'', last_name = ascii ''Roy'',
       email = Some (ascii ''bob@ray.net'')\<rparr>] \<and>
   update_client 99 (ascii ''Rob'') (ascii ''Roy'') (Some (ascii ''bob@ray.net'')) sample =
     (Inr (), sample\<lparr>history := [Committed sample_tables]\<rparr>)"
proof -
  have a: "txn sample \<noteq> InError"
    by (simp add: sample_def)
  have b: "2 \<in> client_id ` set (tbl_client (work sample))"
      "99 \<notin> client_id ` set (tbl_client (work sample))"
    by (simp_all add: sample_def sample_tables_def)
  have c: "email_ok (Some (ascii ''bob@ray.net''))"
    by (simp add: email_ok_def email_regexp_def some_def chr_def ascii_def)
  have d: "client_fits (ascii ''Rob'') (ascii ''Roy'') (Some (ascii ''bob@ray.net''))"
    by (simp add: client_fits_def ascii_def)
  have w: "with_client_fields 2 (ascii ''Rob'') (ascii ''Roy'') (Some (ascii ''bob@ray.net''))
        sample_tables =
      \<lparr>tbl_client =
         [\<lparr>client_id = 1, first_name = ascii ''Ann'', last_name = ascii ''Lee'',
           email = Some (ascii ''ann@lee.org'')\<rparr>,
          \<lparr>client_id = 2, first_name = ascii ''Rob'', last_name = ascii ''Roy'',
           email = Some (ascii ''bob@ray.net'')\<rparr>],
       tbl_client_phone = tbl_client_phone sample_tables\<rparr>"
    by (simp add: with_client_fields_def sample_tables_def)
  show ?thesis
    using a b c d
      update_client_replaces_or_rejects [OF a d, of 2]
      update_client_replaces_or_rejects [OF a d, of 99]
    by (simp add: sample_def w)
qed

text \<open>
  Claim C8 as the specification words it. On the identifier of a client the three
  fields are replaced by the values given: client 1 is there, the update with an email
  that fails the check raises \<open>CheckViolation\<close>, and the row is as it was. On an
  identifier that no client has nothing is raised: no client has 99, and the update
  with a first name of 101 characters raises \<open>StringDataRightTruncation\<close>.
\<close>

theorem update_client_bad_email_counterexample:
  "1 \<in> client_id ` set (tbl_client (work sample)) \<and>
   fst (update_client 1 (ascii ''Anna'') (ascii ''Low'') (Some (ascii ''not-an-email'')) sample) =
     Inl CheckViolation \<and>
   tbl_client (committed
       (snd (update_client 1 (ascii ''Anna'') (ascii ''Low'') (Some (ascii ''not-an-email'')) sample))) =
     tbl_client (committed sample) \<and>
   tbl_client (work
       (snd (update_client 1 (ascii ''Anna'') (ascii ''Low'') (Some (ascii ''not-an-email'')) sample))) =
     tbl_client (committed sample) \<and>
   99 \<notin> client_id ` set (tbl_client (work sample)) \<and>
   fst (update_client 99 (replicate 101 33) (ascii ''Low'') None sample) =
     Inl StringDataRightTruncation"
  by (simp add: run_defs list_all_iff)
section \<open>Further properties\<close>

text \<open>
  The matcher accepts a text exactly when the regular expression denotes it, so
  \<open>email_ok\<close> and \<open>phone_ok\<close> are the two check constraints read as regular
  expressions over whole values.
\<close>

theorem matches_denotes: "matches r w \<longleftrightarrow> denotes r w"
proof (induction w arbitrary: r)
  case Nil
  then show ?case by (simp add: nullable_iff)
next
  case (Cons c w)
  then show ?case
    using after_sound after_complete by auto
qed

theorem matches_denotes_witness:
  "matches phone_regexp (ascii ''555-1234'') \<and> denotes phone_regexp (ascii ''555-1234'') \<and>
   \<not> denotes phone_regexp (ascii ''bad phone!!'')"
proof -
  have "matches phone_regexp (ascii ''555-1234'')" "\<not> matches phone_regexp (ascii ''bad phone!!'')"
    by (simp_all add: phone_regexp_def opt_def one_to_four_def chr_def ascii_def)
  then show ?thesis
    using matches_denotes [of phone_regexp "ascii ''555-1234''"]
      matches_denotes [of phone_regexp "ascii ''bad phone!!''"]
    by simp
qed

text \<open>
  Integrity is an invariant: it holds of the empty database, and each of the seven
  operations keeps it, whatever its arguments and whether it returns or raises. A sound
  connection meets what the theorems above ask of the keys: the sequences are ahead of
  them, the client identifiers are distinct and every phone has its client.
\<close>

theorem operations_keep_database_sound:
  assumes "sound s"
  shows "sound (snd (add_client fn ln em pl s)) \<and>
     sound (snd (add_client_phone cid ph s)) \<and>
     sound (snd (update_client cid fn ln em s)) \<and>
     sound (snd (del_client_phone pid s)) \<and>
     sound (snd (del_client cid s)) \<and>
     sound (snd (find_client f v s)) \<and>
     sound (snd (print_all_clients qp s)) \<and>
     seqs_ahead s \<and> distinct (map client_id (tbl_client (work s))) \<and> refs_ok (work s)"
proof -
  have "seqs_ahead s \<and> distinct (map client_id (tbl_client (work s))) \<and> refs_ok (work s)"
    using assms by (simp add: sound_def tables_ok_def seqs_ahead_def)
  then show ?thesis
    using assms
    by (simp add: sound_add_client sound_add_client_phone sound_update_client
        sound_del_client_phone sound_del_client sound_find_client sound_print_all_clients)
qed

theorem operations_keep_database_sound_witness:
  "sound connect \<and> sound sample \<and>
   sound (snd (add_client (ascii ''Eve'') (ascii ''Poe'') None
                 (Phones [ascii ''555-1234'', ascii ''bad phone!!'']) sample)) \<and>
   sound (snd (del_client 1 sample)) \<and>
   seqs_ahead sample"
proof -
  have a: "sound sample"
    by (simp add: sound_def tables_ok_def refs_ok_def sample_def sample_tables_def)
  show ?thesis
    using a sound_connect
      operations_keep_database_sound [OF a, of "ascii ''Eve''" "ascii ''Poe''" None
        "Phones [ascii ''555-1234'', ascii ''bad phone!!'']" 1]
    by simp
qed

text \<open>
  A rejected client uses a value of the sequence up: after an \<open>add_client\<close> turned down
  for its email, the next client accepted takes the identifier two above the last value
  handed out before, not the one above.
\<close>

theorem add_client_rejected_uses_identifier:
  assumes "sound s" and "txn s \<noteq> InError" and "\<not> email_ok em" and "email_ok em2"
    and "client_fits fn ln em" and "client_fits fn2 ln2 em2"
    and "client_id_seq s + 1 < 2147483647"
  shows "fst (add_client fn2 ln2 em2 No_list (snd (add_client fn ln em pl s))) =
     Inr (Some (client_id_seq s + 2))"
proof -
  let ?s1 = "s\<lparr>work := committed s, txn := Idle, client_id_seq := client_id_seq s + 1,
        history := history s @ [RolledBack], stdout := stdout s @ [Incorrect_email]\<rparr>"
  have first: "add_client fn ln em pl s = (Inr None, ?s1)"
    using assms(2,3,5,7)
    by (simp add: add_client_def execute_def sql_insert_client_fits Let_def rollback_def print_def)
  have t: "txn ?s1 \<noteq> InError"
    by simp
  have "\<forall>c \<in> set (tbl_client (committed s)). client_id c \<le> client_id_seq s"
    using assms(1) by (simp add: sound_def tables_ok_def)
  then have k: "\<forall>c \<in> set (tbl_client (work ?s1)). client_id c \<le> client_id_seq ?s1"
    by auto
  have m: "client_id_seq ?s1 < 2147483647"
    using assms(7) by simp
  have "fst (add_client fn2 ln2 em2 No_list ?s1) = Inr (Some (client_id_seq ?s1 + 1))"
    by (simp add: add_client_without_phones [OF t assms(4) k _ assms(6) m])
  then show ?thesis
    by (simp add: first)
qed

theorem add_client_rejected_uses_identifier_witness:
  "sound sample \<and> txn sample \<noteq> InError \<and> \<not> email_ok (Some (ascii ''not-an-email'')) \<and>
   email_ok None \<and>
   client_fits (ascii ''Dan'') (ascii ''Orr'') (Some (ascii ''not-an-email'')) \<and>
   client_fits (ascii ''Eve'') (ascii ''Poe'') None \<and>
   client_id_seq sample + 1 < 2147483647 \<and>
   fst (add_client (ascii ''Eve'') (ascii ''Poe'') None No_list
          (snd (add_client (ascii ''Dan'') (ascii ''Orr'') (Some (ascii ''not-an-email''))
                  No_list sample))) = Inr (Some 4)"
proof -
  have a: "sound sample"
    by (simp add: sound_def tables_ok_def refs_ok_def sample_def sample_tables_def)
  have b: "txn sample \<noteq> InError"
    by (simp add: sample_def)
  have c: "\<not> email_ok (Some (ascii ''not-an-email''))"
    by (simp add: email_ok_def email_regexp_def some_def chr_def ascii_def)
  have d: "email_ok None"
    by (simp add: email_ok_def)
  have e: "client_fits (ascii ''Dan'') (ascii ''Orr'') (Some (ascii ''not-an-email''))"
      "client_fits (ascii ''Eve'') (ascii ''Poe'') None"
    by (simp_all add: client_fits_def ascii_def)
  have f: "client_id_seq sample + 1 < 2147483647"
    by (simp add: sample_def)
  have s: "client_id_seq sample = 2"
    by (simp add: sample_def)
  show ?thesis
    using a b c d e f
      add_client_rejected_uses_identifier [OF a b c d e f, of No_list]
    by (simp add: s)
qed

end
